theory Spec2Isabelle
  imports Complex_Main "HOL-Library.Word" "HOL-Library.Log_Nat"
begin

unbundle bit_operations_syntax

section \<open>Data model of the snapshot (crates/wv-wasm/www/main.js)\<close>

text \<open>
  The snapshot is the object returned by \<^verbatim>\<open>game.tick_packed\<close> and
  \<^verbatim>\<open>game.get_snapshot\<close>. State and phase tags are JavaScript strings and are kept
  as strings, so that a tag outside the known ones is an ordinary input. Optional fields
  (\<^verbatim>\<open>null\<close> or \<^verbatim>\<open>undefined\<close>) are options. Comparisons of numbers such as
  \<^verbatim>\<open>health_pct < 0.25\<close> are exact on finite doubles, and every finite double is a
  rational, so these fields are rationals.
\<close>

datatype js_error = TypeError | RangeError

record attack_info =
  attack_phase :: string

record fighter =
  fighter_id :: string
  weapon_type :: string
  health_pct :: rat
  stamina_pct :: rat
  round_wins :: nat
  position :: "rat \<times> rat \<times> rat"
  facing :: string
  state :: string
  attack :: "attack_info option"

record snapshot =
  fighters :: "fighter list"
  current_round :: nat
  round_timer :: rat
  phase :: string
  countdown_display :: "string option"
  winner :: "nat option"
  last_hit_info :: "string option"

section \<open>Numbers\<close>

text \<open>
  A JavaScript number is an IEEE 754 binary64 value. A finite one is modelled as the
  rational it denotes; the result of an addition, subtraction or division is the exact
  result rounded to the nearest value with a 53-bit significand, ties to the even
  significand; so is the product of a value with 100. \<^verbatim>\<open>NaN\<close>, the infinities and
  overflow are outside the model. The exponent is not bounded below: a sum or difference
  of two binary64 values that falls in the subnormal range is exact in IEEE arithmetic and
  is exact here, and so is a product with 100 that falls there. A decimal literal
  that is not itself a binary64 value, such as \<^verbatim>\<open>1.3\<close>, denotes the nearest one,
  \<open>double 1.3\<close>.
\<close>

definition round_even :: "rat \<Rightarrow> int" where
  "round_even x =
     (let f = \<lfloor>x\<rfloor>; r = x - of_int f
      in if r < 1/2 then f else if 1/2 < r then f + 1 else if even f then f else f + 1)"

text \<open>For \<open>x \<noteq> 0\<close>, \<open>exponent x\<close> is the \<open>e\<close> with \<open>2\<^sup>e \<le> \<bar>x\<bar> < 2\<^sup>e\<^sup>+\<^sup>1\<close>.\<close>

definition exponent :: "rat \<Rightarrow> int" where
  "exponent x =
     (let p = fst (quotient_of \<bar>x\<bar>); q = snd (quotient_of \<bar>x\<bar>); d = bitlen p - bitlen q
      in if 2 powi d \<le> \<bar>x\<bar> then d else d - 1)"

definition double :: "rat \<Rightarrow> rat" where
  "double x =
     (if x = 0 then 0
      else let q = 2 powi (exponent x - 52)
           in sgn x * of_int (round_even (\<bar>x\<bar> / q)) * q)"

definition fadd :: "rat \<Rightarrow> rat \<Rightarrow> rat" where
  "fadd a b = double (a + b)"

definition fsub :: "rat \<Rightarrow> rat \<Rightarrow> rat" where
  "fsub a b = double (a - b)"

definition fmul :: "rat \<Rightarrow> rat \<Rightarrow> rat" where
  "fmul a b = double (a * b)"

section \<open>State colours\<close>

text \<open>
  \<^verbatim>\<open>STATE_COLORS\<close> is an object literal. Reading a property of it by an arbitrary
  string finds the literal's own properties first and then the properties every plain
  object inherits from \<^verbatim>\<open>Object.prototype\<close>; only a name found in neither reads as
  \<^verbatim>\<open>undefined\<close>. An inherited member is a function or an object, never
  \<^verbatim>\<open>null\<close> or a number.
\<close>

datatype js_value = Undefined | Null | Num nat | Inherited

definition STATE_COLORS_own :: "(string \<times> js_value) list" where
  "STATE_COLORS_own =
     [(''Idle'', Null),
      (''Moving'', Null),
      (''Attacking'', Num 0xffaa00),
      (''Blocking'', Num 0x00aaff),
      (''Dashing'', Num 0x88ffaa),
      (''HitStun'', Num 0xff0000),
      (''Airborne'', Num 0xffff44),
      (''Knockdown'', Num 0x884400),
      (''Getting Up'', Num 0x886644)]"

definition Object_prototype :: "string list" where
  "Object_prototype =
     [''constructor'', ''__defineGetter__'', ''__defineSetter__'', ''hasOwnProperty'',
      ''__lookupGetter__'', ''__lookupSetter__'', ''isPrototypeOf'',
      ''propertyIsEnumerable'', ''toString'', ''valueOf'', ''__proto__'',
      ''toLocaleString'']"

definition STATE_COLORS :: "string \<Rightarrow> js_value" where
  "STATE_COLORS k =
     (case map_of STATE_COLORS_own k of
        Some v \<Rightarrow> v
      | None \<Rightarrow> if k \<in> set Object_prototype then Inherited else Undefined)"

section \<open>Keyboard and input encoding\<close>

text \<open>
  \<^verbatim>\<open>keys\<close> maps a \<^verbatim>\<open>KeyboardEvent.code\<close> to the boolean the last key event
  stored; a code never seen reads as \<^verbatim>\<open>undefined\<close>. \<^verbatim>\<open>!!keys[c]\<close> is true
  exactly for a stored \<^verbatim>\<open>true\<close>.
\<close>

type_synonym keys = "string \<rightharpoonup> bool"

definition keydown :: "string \<Rightarrow> keys \<Rightarrow> keys" where
  "keydown code keys = keys(code \<mapsto> True)"

definition keyup :: "string \<Rightarrow> keys \<Rightarrow> keys" where
  "keyup code keys = keys(code \<mapsto> False)"

definition pressed :: "keys \<Rightarrow> string \<Rightarrow> bool" where
  "pressed keys c = (keys c = Some True)"

definition readInputs :: "keys \<Rightarrow> 32 word" where
  "readInputs keys =
     (let p1_fwd   = pressed keys ''KeyD'';
          p1_back  = pressed keys ''KeyA'';
          p1_left  = pressed keys ''KeyW'';
          p1_right = pressed keys ''KeyS'';
          p1_light = pressed keys ''KeyJ'';
          p1_heavy = pressed keys ''KeyK'';
          p1_spec  = pressed keys ''KeyL'';
          p1_block = pressed keys ''ShiftLeft'';
          p1_dash  = pressed keys ''Space'';
          p2_fwd   = pressed keys ''ArrowRight'';
          p2_back  = pressed keys ''ArrowLeft'';
          p2_left  = pressed keys ''ArrowUp'';
          p2_right = pressed keys ''ArrowDown'';
          p2_light = pressed keys ''Numpad1'';
          p2_heavy = pressed keys ''Numpad2'';
          p2_spec  = pressed keys ''Numpad3'';
          p2_block = pressed keys ''Numpad0'';
          p2_dash  = pressed keys ''NumpadEnter'';
          bits = 0;
          bits = (if p1_fwd   then bits OR push_bit 0 1 else bits);
          bits = (if p1_back  then bits OR push_bit 1 1 else bits);
          bits = (if p1_left  then bits OR push_bit 2 1 else bits);
          bits = (if p1_right then bits OR push_bit 3 1 else bits);
          bits = (if p1_light then bits OR push_bit 4 1 else bits);
          bits = (if p1_heavy then bits OR push_bit 5 1 else bits);
          bits = (if p1_spec  then bits OR push_bit 6 1 else bits);
          bits = (if p1_block then bits OR push_bit 7 1 else bits);
          bits = (if p1_dash  then bits OR push_bit 8 1 else bits);
          bits = (if p2_fwd   then bits OR push_bit 9 1 else bits);
          bits = (if p2_back  then bits OR push_bit 10 1 else bits);
          bits = (if p2_left  then bits OR push_bit 11 1 else bits);
          bits = (if p2_right then bits OR push_bit 12 1 else bits);
          bits = (if p2_light then bits OR push_bit 13 1 else bits);
          bits = (if p2_heavy then bits OR push_bit 14 1 else bits);
          bits = (if p2_spec  then bits OR push_bit 15 1 else bits);
          bits = (if p2_block then bits OR push_bit 16 1 else bits);
          bits = (if p2_dash  then bits OR push_bit 17 1 else bits)
      in bits)"

text \<open>
  The semantic names of the eighteen inputs, as the variable names of \<^verbatim>\<open>readInputs\<close>
  give them (\<^verbatim>\<open>p1_fwd\<close> ... \<^verbatim>\<open>p2_dash\<close>), and the key each is bound to.
\<close>

datatype player = P1 | P2

datatype action =
  Forward | Backward | GuardLeft | GuardRight | Light | Heavy | Special | Block | Dash

fun key_binding :: "player \<Rightarrow> action \<Rightarrow> string" where
  "key_binding P1 Forward = ''KeyD''"
| "key_binding P1 Backward = ''KeyA''"
| "key_binding P1 GuardLeft = ''KeyW''"
| "key_binding P1 GuardRight = ''KeyS''"
| "key_binding P1 Light = ''KeyJ''"
| "key_binding P1 Heavy = ''KeyK''"
| "key_binding P1 Special = ''KeyL''"
| "key_binding P1 Block = ''ShiftLeft''"
| "key_binding P1 Dash = ''Space''"
| "key_binding P2 Forward = ''ArrowRight''"
| "key_binding P2 Backward = ''ArrowLeft''"
| "key_binding P2 GuardLeft = ''ArrowUp''"
| "key_binding P2 GuardRight = ''ArrowDown''"
| "key_binding P2 Light = ''Numpad1''"
| "key_binding P2 Heavy = ''Numpad2''"
| "key_binding P2 Special = ''Numpad3''"
| "key_binding P2 Block = ''Numpad0''"
| "key_binding P2 Dash = ''NumpadEnter''"

text \<open>
  The layout as the specification words it: nine bits per player in the order forward,
  backward, guard-left, guard-right, light, heavy, special, block, dash, player 2 offset
  by nine.
\<close>

fun action_offset :: "action \<Rightarrow> nat" where
  "action_offset Forward = 0"
| "action_offset Backward = 1"
| "action_offset GuardLeft = 2"
| "action_offset GuardRight = 3"
| "action_offset Light = 4"
| "action_offset Heavy = 5"
| "action_offset Special = 6"
| "action_offset Block = 7"
| "action_offset Dash = 8"

fun player_offset :: "player \<Rightarrow> nat" where
  "player_offset P1 = 0"
| "player_offset P2 = 9"

definition spec_bit :: "player \<Rightarrow> action \<Rightarrow> nat" where
  "spec_bit p a = player_offset p + action_offset a"

section \<open>HUD\<close>

text \<open>
  The part of the page \<^verbatim>\<open>updateHUD\<close> writes and the two module variables it keeps.
  A text that contains a formatted number is kept as its pieces: the characters written
  out in the source, a number as a template literal renders it, and a number as
  \<^verbatim>\<open>toFixed\<close> renders it with the given count of decimals.
\<close>

datatype piece = Chars string | Shown rat | Fixed nat rat

type_synonym label = "piece list"

text \<open>
  The win stars are a string of the character U+2605, kept as its UTF-16 code units.
  \<^verbatim>\<open>String.prototype.repeat\<close> throws a \<^verbatim>\<open>RangeError\<close> when the result would be
  longer than the longest string the engine can hold. ECMAScript bounds that length by
  \<open>2\<^sup>5\<^sup>3 - 1\<close> and leaves the value to the engine; the value here is that of V8 on a
  64-bit machine. A count below 0 is no value of \<^verbatim>\<open>round_wins\<close>.
\<close>

definition max_string_length :: nat where
  "max_string_length = 2 ^ 29 - 24"

definition String_repeat :: "'a list \<Rightarrow> nat \<Rightarrow> js_error + 'a list" where
  "String_repeat s count =
     (if max_string_length < length s * count then Inl RangeError
      else Inr (concat (replicate count s)))"

definition star :: "16 word list" where
  "star = [0x2605]"

record hud =
  p1Name_textContent :: string
  p1Health_width :: label
  p1Stamina_width :: label
  p1Wins_textContent :: "16 word list"
  p2Name_textContent :: string
  p2Health_width :: label
  p2Stamina_width :: label
  p2Wins_textContent :: "16 word list"
  round_textContent :: label
  timer_textContent :: label
  phase_textContent :: string
  phase_display :: string
  hitInfo_textContent :: string
  hitInfo_opacity :: string
  p1Health_background :: string
  p2Health_background :: string
  lastHitInfo :: "string option"
  hitInfoTimer :: nat

text \<open>
  A throw leaves what was written before it; the error comes with the page as it is at
  the throw.
\<close>

type_synonym outcome = "js_error \<times> hud + hud"

text \<open>Lines 181 to 184.\<close>

definition p1_labels :: "fighter \<Rightarrow> hud \<Rightarrow> outcome" where
  "p1_labels f1 h =
     (let h = h\<lparr>p1Name_textContent := ''P1 '' @ fighter_id f1 @ '' ('' @ weapon_type f1 @ '')'',
                 p1Health_width := [Shown (fmul (health_pct f1) 100), Chars ''%''],
                 p1Stamina_width := [Shown (fmul (stamina_pct f1) 100), Chars ''%'']\<rparr>
      in case String_repeat star (round_wins f1) of
           Inl e \<Rightarrow> Inl (e, h)
         | Inr stars \<Rightarrow> Inr (h\<lparr>p1Wins_textContent := stars\<rparr>))"

text \<open>Lines 186 to 189.\<close>

definition p2_labels :: "fighter \<Rightarrow> hud \<Rightarrow> outcome" where
  "p2_labels f2 h =
     (let h = h\<lparr>p2Name_textContent := ''P2 '' @ fighter_id f2 @ '' ('' @ weapon_type f2 @ '')'',
                 p2Health_width := [Shown (fmul (health_pct f2) 100), Chars ''%''],
                 p2Stamina_width := [Shown (fmul (stamina_pct f2) 100), Chars ''%'']\<rparr>
      in case String_repeat star (round_wins f2) of
           Inl e \<Rightarrow> Inl (e, h)
         | Inr stars \<Rightarrow> Inr (h\<lparr>p2Wins_textContent := stars\<rparr>))"

text \<open>Lines 191 and 192.\<close>

definition match_labels :: "snapshot \<Rightarrow> hud \<Rightarrow> hud" where
  "match_labels snap h =
     h\<lparr>round_textContent := [Chars ''Round '', Shown (of_nat (current_round snap))],
       timer_textContent := [Fixed 1 (round_timer snap)]\<rparr>"

text \<open>
  Lines 194 to 208. Assigning \<^verbatim>\<open>null\<close> to \<^verbatim>\<open>textContent\<close> empties it. A
  winner index outside the fighters reads \<^verbatim>\<open>undefined\<close>, and line 203 throws on its
  \<^verbatim>\<open>fighter_id\<close>.
\<close>

definition phase_overlay :: "snapshot \<Rightarrow> hud \<Rightarrow> outcome" where
  "phase_overlay snap h =
     (if phase snap = ''Countdown'' then
        Inr (h\<lparr>phase_textContent := (case countdown_display snap of None \<Rightarrow> '''' | Some s \<Rightarrow> s),
               phase_display := ''block''\<rparr>)
      else if phase snap = ''RoundOver'' then
        Inr (h\<lparr>phase_textContent := ''ROUND OVER'', phase_display := ''block''\<rparr>)
      else if phase snap = ''MatchOver'' then
        (case winner snap of
           Some winnerIdx \<Rightarrow>
             if winnerIdx < length (fighters snap) then
               Inr (h\<lparr>phase_textContent := fighter_id (fighters snap ! winnerIdx) @ '' WINS!'',
                      phase_display := ''block''\<rparr>)
             else Inl (TypeError, h)
         | None \<Rightarrow>
             Inr (h\<lparr>phase_textContent := ''Draw'' @ '' WINS!'', phase_display := ''block''\<rparr>))
      else Inr (h\<lparr>phase_display := ''none''\<rparr>))"

text \<open>
  Lines 211 to 222. \<^verbatim>\<open>snap.last_hit_info && ...\<close> holds for a string that is present
  and not empty; \<^verbatim>\<open>!==\<close> compares it with the retained string or \<^verbatim>\<open>null\<close>.
\<close>

definition hit_info :: "snapshot \<Rightarrow> hud \<Rightarrow> hud" where
  "hit_info snap h =
     (let h = (case last_hit_info snap of
                 None \<Rightarrow> h
               | Some d \<Rightarrow>
                   if d \<noteq> [] \<and> Some d \<noteq> lastHitInfo h then
                     h\<lparr>lastHitInfo := Some d,
                       hitInfoTimer := 120,
                       hitInfo_textContent := d,
                       hitInfo_opacity := ''1''\<rparr>
                   else h)
      in if hitInfoTimer h > 0 then
           let h = h\<lparr>hitInfoTimer := hitInfoTimer h - 1\<rparr>
           in if hitInfoTimer h = 0 then h\<lparr>hitInfo_opacity := ''0''\<rparr> else h
         else h)"

text \<open>Lines 224 to 239.\<close>

definition health_background :: "rat \<Rightarrow> string" where
  "health_background pct =
     (if pct < 0.25 then ''linear-gradient(180deg, #f44, #822)''
      else if pct < 0.5 then ''linear-gradient(180deg, #fc4, #862)''
      else '''')"

definition health_bars :: "fighter \<Rightarrow> fighter \<Rightarrow> hud \<Rightarrow> hud" where
  "health_bars f1 f2 h =
     h\<lparr>p1Health_background := health_background (health_pct f1),
       p2Health_background := health_background (health_pct f2)\<rparr>"

text \<open>
  \<^verbatim>\<open>updateHUD\<close>, lines 177 to 240. A fighter that is missing reads as
  \<^verbatim>\<open>undefined\<close>: line 181 throws on \<^verbatim>\<open>f1.fighter_id\<close> and line 186 on
  \<^verbatim>\<open>f2.fighter_id\<close>.
\<close>

definition updateHUD :: "snapshot \<Rightarrow> hud \<Rightarrow> outcome" where
  "updateHUD snap h =
     (case fighters snap of
        [] \<Rightarrow> Inl (TypeError, h)
      | f1 # rest \<Rightarrow>
          (case p1_labels f1 h of
             Inl e \<Rightarrow> Inl e
           | Inr h \<Rightarrow>
               (case rest of
                  [] \<Rightarrow> Inl (TypeError, h)
                | f2 # _ \<Rightarrow>
                    (case p2_labels f2 h of
                       Inl e \<Rightarrow> Inl e
                     | Inr h \<Rightarrow>
                         (case phase_overlay snap (match_labels snap h) of
                            Inl e \<Rightarrow> Inl e
                          | Inr h \<Rightarrow> Inr (health_bars f1 f2 (hit_info snap h)))))))"

section \<open>Fighter meshes\<close>

datatype mesh_ref = P1Mesh | P2Mesh

datatype rotation = Zero | Pi

record mesh =
  mesh_ref :: mesh_ref
  mesh_position :: "rat \<times> rat \<times> rat"
  rotation_y :: rotation
  bodyMat_color :: js_value
  body_scale :: "rat \<times> rat \<times> rat"

text \<open>
  \<^verbatim>\<open>bodyMat_color\<close> is the argument handed to \<^verbatim>\<open>setHex\<close>. \<^verbatim>\<open>x != null\<close> is
  false exactly for \<^verbatim>\<open>null\<close> and \<^verbatim>\<open>undefined\<close>.
\<close>

definition body_color :: "mesh_ref \<Rightarrow> string \<Rightarrow> js_value" where
  "body_color m st =
     (let defaultColor = (if m = P1Mesh then 0x4488ff else 0xff4444);
          stateColor = STATE_COLORS st
      in if stateColor \<noteq> Null \<and> stateColor \<noteq> Undefined then stateColor else Num defaultColor)"

definition attack_active :: "attack_info option \<Rightarrow> bool" where
  "attack_active a = (case a of None \<Rightarrow> False | Some i \<Rightarrow> attack_phase i = ''Active'')"

definition scale_for :: "string \<Rightarrow> attack_info option \<Rightarrow> rat \<times> rat \<times> rat" where
  "scale_for st a =
     (if st = ''Dashing'' then (double 1.3, double 0.8, 1)
      else if st = ''Attacking'' \<and> attack_active a then (double 1.1, double 1.05, double 1.1)
      else if st = ''HitStun'' then (double 0.9, double 1.1, double 0.9)
      else if st = ''Knockdown'' then (double 1.2, 0.5, 1)
      else (1, 1, 1))"

definition updateFighterMesh :: "mesh \<Rightarrow> fighter \<Rightarrow> mesh" where
  "updateFighterMesh m f =
     m\<lparr>mesh_position := position f,
       rotation_y := (if facing f = ''Right'' then Zero else Pi),
       bodyMat_color := body_color (mesh_ref m) (state f),
       body_scale := scale_for (state f) (attack f)\<rparr>"

section \<open>Game loop\<close>

definition TICK_MS :: rat where
  "TICK_MS = double (1000 / 60)"

text \<open>
  The engine is the WASM object \<^verbatim>\<open>game\<close>: \<^verbatim>\<open>tick_packed\<close> takes the packed input,
  changes the engine and returns a snapshot. It is a parameter of the model. The calls the
  loop makes are recorded in \<^verbatim>\<open>trace\<close>, in order.
\<close>

type_synonym 'g engine = "'g \<Rightarrow> 32 word \<Rightarrow> 'g \<times> snapshot"

datatype call = ReadInputs | TickPacked "32 word"

record 'g frame =
  accumulator :: rat
  lastTime :: rat
  latestSnap :: snapshot
  game :: 'g
  trace :: "call list"
  p1Mesh :: mesh
  p2Mesh :: mesh
  hud :: hud

text \<open>The body of the \<^verbatim>\<open>while\<close> loop, lines 283 to 285.\<close>

definition one_tick :: "'g engine \<Rightarrow> keys \<Rightarrow> 'g frame \<Rightarrow> 'g frame" where
  "one_tick tick_packed keys s =
     (let bits = readInputs keys;
          r = tick_packed (game s) bits
      in s\<lparr>game := fst r, latestSnap := snd r,
           accumulator := fsub (accumulator s) TICK_MS,
           trace := trace s @ [ReadInputs, TickPacked bits]\<rparr>)"

text \<open>The \<^verbatim>\<open>while\<close> loop, lines 282 to 286. \<open>None\<close> is a loop that never ends.\<close>

partial_function (option) tick_loop :: "'g engine \<Rightarrow> keys \<Rightarrow> 'g frame \<Rightarrow> 'g frame option" where
  "tick_loop tick_packed keys s =
     (if accumulator s \<ge> TICK_MS then tick_loop tick_packed keys (one_tick tick_packed keys s)
      else Some s)"

text \<open>Lines 278 and 280 to 286: the clamp, the accumulation and the loop.\<close>

definition tick_step :: "'g engine \<Rightarrow> keys \<Rightarrow> rat \<Rightarrow> 'g frame \<Rightarrow> 'g frame option" where
  "tick_step tick_packed keys elapsed s =
     (let dt = min elapsed 100
      in tick_loop tick_packed keys (s\<lparr>accumulator := fadd (accumulator s) dt\<rparr>))"

text \<open>
  The tick-scheduling steps of successive frames, given the elapsed time of each, and the
  value the accumulator takes over frames in which no tick runs.
\<close>

fun tick_steps :: "'g engine \<Rightarrow> keys \<Rightarrow> rat list \<Rightarrow> 'g frame \<Rightarrow> 'g frame option" where
  "tick_steps tick_packed keys [] s = Some s"
| "tick_steps tick_packed keys (elapsed # rest) s =
     (case tick_step tick_packed keys elapsed s of
        None \<Rightarrow> None
      | Some s' \<Rightarrow> tick_steps tick_packed keys rest s')"

definition accumulate :: "rat \<Rightarrow> rat list \<Rightarrow> rat" where
  "accumulate a es = foldl (\<lambda>a e. fadd a (min e 100)) a es"

text \<open>
  Lines 289 to 291. \<^verbatim>\<open>updateFighterMesh\<close> throws on a missing fighter, at line 244;
  what was written before a throw stays written.
\<close>

definition render :: "'g frame \<Rightarrow> 'g frame \<times> js_error option" where
  "render s =
     (case fighters (latestSnap s) of
        [] \<Rightarrow> (s, Some TypeError)
      | [f1] \<Rightarrow> (s\<lparr>p1Mesh := updateFighterMesh (p1Mesh s) f1\<rparr>, Some TypeError)
      | f1 # f2 # _ \<Rightarrow>
          (let s = s\<lparr>p1Mesh := updateFighterMesh (p1Mesh s) f1,
                      p2Mesh := updateFighterMesh (p2Mesh s) f2\<rparr>
           in case updateHUD (latestSnap s) (hud s) of
                Inl (e, h) \<Rightarrow> (s\<lparr>hud := h\<rparr>, Some e)
              | Inr h \<Rightarrow> (s\<lparr>hud := h\<rparr>, None)))"

text \<open>
  \<^verbatim>\<open>loop(now)\<close>, lines 275 to 294, with the key table as it is when the frame runs.
  The next frame is requested before anything else, so it runs whether or not this one
  throws.
\<close>

definition loop :: "'g engine \<Rightarrow> keys \<Rightarrow> rat \<Rightarrow> 'g frame \<Rightarrow> ('g frame \<times> js_error option) option" where
  "loop tick_packed keys now s =
     map_option render
       (tick_step tick_packed keys (fsub now (lastTime s)) (s\<lparr>lastTime := now\<rparr>))"

fun run_frames :: "'g engine \<Rightarrow> (keys \<times> rat) list \<Rightarrow> 'g frame \<Rightarrow> 'g frame option" where
  "run_frames tick_packed [] s = Some s"
| "run_frames tick_packed ((keys, now) # rest) s =
     (case loop tick_packed keys now s of
        None \<Rightarrow> None
      | Some (s', _) \<Rightarrow> run_frames tick_packed rest s')"

text \<open>The calls of \<open>n\<close> ticks: each engine call right after its own input sample.\<close>

definition ticks :: "nat \<Rightarrow> 32 word \<Rightarrow> call list" where
  "ticks n bits = concat (replicate n [ReadInputs, TickPacked bits])"

text \<open>
  The accumulator after \<open>k\<close> ticks of a frame that started from the largest value a frame
  can start from.
\<close>

definition upper :: "nat \<Rightarrow> rat" where
  "upper k = ((\<lambda>a. fsub a TICK_MS) ^^ k) (double (TICK_MS + 100))"

section \<open>Sequences of HUD updates\<close>

text \<open>
  A snapshot as the data model describes it: two fighters, and a winner that is one of
  them.
\<close>

definition well_formed :: "snapshot \<Rightarrow> bool" where
  "well_formed snap \<longleftrightarrow>
     length (fighters snap) = 2 \<and> (case winner snap of None \<Rightarrow> True | Some i \<Rightarrow> i < 2)"

text \<open>
  A snapshot of the data model whose two win counts are small enough for the strings of
  win stars to exist. These are the snapshots of the data model on which
  \<^verbatim>\<open>updateHUD\<close> returns.
\<close>

definition presentable :: "snapshot \<Rightarrow> bool" where
  "presentable snap \<longleftrightarrow>
     well_formed snap \<and>
     round_wins (fighters snap ! 0) \<le> max_string_length \<and>
     round_wins (fighters snap ! 1) \<le> max_string_length"

text \<open>A script of calls, one per snapshot, that ends at the first throw.\<close>

fun present_all :: "snapshot list \<Rightarrow> hud \<Rightarrow> outcome" where
  "present_all [] h = Inr h"
| "present_all (snap # snaps) h =
     (case updateHUD snap h of Inl e \<Rightarrow> Inl e | Inr h' \<Rightarrow> present_all snaps h')"

section \<open>Sample data\<close>

definition kael :: fighter where
  "kael = \<lparr>fighter_id = ''Kael'', weapon_type = ''Sword'', health_pct = 1, stamina_pct = 1,
           round_wins = 0, position = (-3, 0, 0), facing = ''Right'', state = ''Idle'',
           attack = None\<rparr>"

definition knight :: fighter where
  "knight = \<lparr>fighter_id = ''Knight'', weapon_type = ''Mace'', health_pct = double 0.2499,
             stamina_pct = 1, round_wins = 1, position = (3, 0, 0), facing = ''Left'',
             state = ''Idle'', attack = None\<rparr>"

definition snap0 :: snapshot where
  "snap0 = \<lparr>fighters = [kael, knight], current_round = 1, round_timer = 60,
            phase = ''Fighting'', countdown_display = None, winner = None,
            last_hit_info = None\<rparr>"

definition hud0 :: hud where
  "hud0 = \<lparr>p1Name_textContent = [], p1Health_width = [], p1Stamina_width = [],
           p1Wins_textContent = [], p2Name_textContent = [], p2Health_width = [],
           p2Stamina_width = [], p2Wins_textContent = [], round_textContent = [],
           timer_textContent = [], phase_textContent = [], phase_display = ''none'',
           hitInfo_textContent = [], hitInfo_opacity = ''0'', p1Health_background = [],
           p2Health_background = [], lastHitInfo = None, hitInfoTimer = 0\<rparr>"

definition mesh0 :: "mesh_ref \<Rightarrow> mesh" where
  "mesh0 r = \<lparr>mesh_ref = r, mesh_position = (0, 0, 0), rotation_y = Zero,
              bodyMat_color = Num (if r = P1Mesh then 0x4488ff else 0xff4444),
              body_scale = (1, 1, 1)\<rparr>"

text \<open>A stub engine that counts its calls and always answers with the same snapshot.\<close>

definition stub_engine :: "nat engine" where
  "stub_engine g bits = (Suc g, snap0)"

definition frame0 :: "nat frame" where
  "frame0 = \<lparr>accumulator = 0, lastTime = 0, latestSnap = snap0, game = 0, trace = [],
             p1Mesh = mesh0 P1Mesh, p2Mesh = mesh0 P2Mesh, hud = hud0\<rparr>"

section \<open>Rounding to binary64\<close>

lemma exponent_bounds:
  assumes "x \<noteq> 0"
  shows "2 powi exponent x \<le> \<bar>x\<bar> \<and> \<bar>x\<bar> < 2 powi (exponent x + 1)"
proof -
  define p where "p = fst (quotient_of \<bar>x\<bar>)"
  define q where "q = snd (quotient_of \<bar>x\<bar>)"
  define d where "d = bitlen p - bitlen q"
  have qp: "quotient_of \<bar>x\<bar> = (p, q)" by (simp add: p_def q_def)
  have q0: "0 < q" using quotient_of_denom_pos [OF qp] .
  have x: "\<bar>x\<bar> = of_int p / of_int q" using quotient_of_div [OF qp] .
  have "0 < \<bar>x\<bar>" using assms by simp
  then have p0: "0 < p" using q0 unfolding x by (simp add: zero_less_divide_iff)
  have bp: "1 \<le> bitlen p" and bq: "1 \<le> bitlen q"
    using p0 q0 bitlen_eq_zero_iff [of p] bitlen_eq_zero_iff [of q] bitlen_nonneg [of p]
      bitlen_nonneg [of q] by linarith+
  have pl: "(2::rat) powi (bitlen p - 1) \<le> of_int p" and pu: "of_int p < (2::rat) powi bitlen p"
  proof -
    from bitlen_bounds [OF p0] have "2 ^ nat (bitlen p - 1) \<le> p" "p < 2 ^ nat (bitlen p)"
      by simp_all
    then have "(of_int (2 ^ nat (bitlen p - 1)) :: rat) \<le> of_int p"
      "(of_int p :: rat) < of_int (2 ^ nat (bitlen p))"
      by (simp_all only: of_int_le_iff of_int_less_iff)
    then show "(2::rat) powi (bitlen p - 1) \<le> of_int p" "of_int p < (2::rat) powi bitlen p"
      using bp by (simp_all add: power_int_def)
  qed
  have ql: "(2::rat) powi (bitlen q - 1) \<le> of_int q" and qu: "of_int q < (2::rat) powi bitlen q"
  proof -
    from bitlen_bounds [OF q0] have "2 ^ nat (bitlen q - 1) \<le> q" "q < 2 ^ nat (bitlen q)"
      by simp_all
    then have "(of_int (2 ^ nat (bitlen q - 1)) :: rat) \<le> of_int q"
      "(of_int q :: rat) < of_int (2 ^ nat (bitlen q))"
      by (simp_all only: of_int_le_iff of_int_less_iff)
    then show "(2::rat) powi (bitlen q - 1) \<le> of_int q" "of_int q < (2::rat) powi bitlen q"
      using bq by (simp_all add: power_int_def)
  qed
  have qr: "(0::rat) < of_int q" using q0 by simp
  have pr: "(0::rat) < of_int p" using p0 by simp
  have upper: "\<bar>x\<bar> < 2 powi (d + 1)"
  proof -
    have "of_int p * (2::rat) powi (bitlen q - 1) < 2 powi bitlen p * of_int q"
      using pu ql qr pr
      by (meson less_le_trans mult_le_cancel_left_pos mult_strict_right_mono zero_less_power_int
          zero_less_numeral)
    then have "of_int p / of_int q < (2::rat) powi bitlen p / 2 powi (bitlen q - 1)"
      using qr by (simp add: field_simps)
    also have "\<dots> = 2 powi (d + 1)"
    proof -
      have eq: "d + 1 = bitlen p - (bitlen q - 1)" by (simp add: d_def)
      show ?thesis unfolding eq by (rule power_int_diff [symmetric]) simp
    qed
    finally show ?thesis unfolding x .
  qed
  have lower: "2 powi (d - 1) < \<bar>x\<bar>"
  proof -
    have "(2::rat) powi (bitlen p - 1) * of_int q < of_int p * 2 powi bitlen q"
      using pl qu qr pr
      by (meson le_less_trans mult_strict_left_mono mult_right_mono less_imp_le
          zero_less_power_int zero_less_numeral)
    then have "(2::rat) powi (bitlen p - 1) / 2 powi bitlen q < of_int p / of_int q"
      using qr by (simp add: field_simps)
    moreover have "(2::rat) powi (bitlen p - 1) / 2 powi bitlen q = 2 powi (d - 1)"
    proof -
      have eq: "d - 1 = (bitlen p - 1) - bitlen q" by (simp add: d_def)
      show ?thesis unfolding eq by (rule power_int_diff [symmetric]) simp
    qed
    ultimately show ?thesis unfolding x by simp
  qed
  have e: "exponent x = (if 2 powi d \<le> \<bar>x\<bar> then d else d - 1)"
    unfolding exponent_def Let_def d_def p_def q_def ..
  show ?thesis
  proof (cases "2 powi d \<le> \<bar>x\<bar>")
    case True
    then show ?thesis using upper e by simp
  next
    case False
    then show ?thesis using lower e by simp
  qed
qed

lemma exponent_unique:
  assumes "2 powi e \<le> \<bar>x\<bar>" "\<bar>x\<bar> < 2 powi (e + 1)"
  shows "exponent x = e"
proof -
  have "x \<noteq> 0"
  proof
    assume "x = 0"
    then have "(2::rat) powi e \<le> 0" using assms(1) by simp
    moreover have "(0::rat) < 2 powi e" by simp
    ultimately show False by simp
  qed
  from exponent_bounds [OF this]
  have b: "2 powi exponent x \<le> \<bar>x\<bar>" "\<bar>x\<bar> < 2 powi (exponent x + 1)" by simp_all
  have "(2::rat) powi e < 2 powi (exponent x + 1)" using assms(1) b(2) by simp
  then have 1: "e < exponent x + 1"
    by (metis not_less power_int_increasing one_le_numeral leD)
  have "(2::rat) powi exponent x < 2 powi (e + 1)" using assms(2) b(1) by simp
  then have 2: "exponent x < e + 1"
    by (metis not_less power_int_increasing one_le_numeral leD)
  from 1 2 show ?thesis by simp
qed

lemma round_even_mono:
  assumes "x \<le> y"
  shows "round_even x \<le> round_even y"
proof (cases "\<lfloor>x\<rfloor> = \<lfloor>y\<rfloor>")
  case True
  then show ?thesis using assms unfolding round_even_def Let_def by auto
next
  case False
  then have "\<lfloor>x\<rfloor> < \<lfloor>y\<rfloor>" using assms floor_mono [of x y] by linarith
  then have "\<lfloor>x\<rfloor> + 1 \<le> \<lfloor>y\<rfloor>" by simp
  moreover have "round_even x \<le> \<lfloor>x\<rfloor> + 1" unfolding round_even_def Let_def by auto
  moreover have "\<lfloor>y\<rfloor> \<le> round_even y" unfolding round_even_def Let_def by auto
  ultimately show ?thesis by linarith
qed

lemma round_even_of_int [simp]: "round_even (of_int n) = n"
  unfolding round_even_def Let_def by simp

lemma round_even_ge: "of_int n \<le> x \<Longrightarrow> n \<le> round_even x"
  using round_even_mono [of "of_int n" x] by simp

lemma round_even_le: "x \<le> of_int n \<Longrightarrow> round_even x \<le> n"
  using round_even_mono [of x "of_int n"] by simp

lemma exponent_minus [simp]: "exponent (- x) = exponent x"
  by (simp add: exponent_def)

lemma double_zero [simp]: "double 0 = 0"
  by (simp add: double_def)

lemma double_minus: "double (- x) = - double x"
  by (simp add: double_def Let_def)

lemma double_pos:
  assumes "0 < x"
  shows "double x = of_int (round_even (x / 2 powi (exponent x - 52))) * 2 powi (exponent x - 52)"
  using assms by (simp add: double_def Let_def)

lemma scaled_bounds:
  assumes "0 < x"
  shows "of_int (2 ^ 52) \<le> x / 2 powi (exponent x - 52)"
    and "x / 2 powi (exponent x - 52) < of_int (2 ^ 53)"
proof -
  have x0: "x \<noteq> 0" using assms by simp
  from exponent_bounds [OF x0] assms
  have b: "2 powi exponent x \<le> x" "x < 2 powi (exponent x + 1)" by simp_all
  have q: "(0::rat) < 2 powi (exponent x - 52)" by simp
  have e1: "(2::rat) powi exponent x = 2 ^ 52 * 2 powi (exponent x - 52)"
    using power_int_add [of "2::rat" 52 "exponent x - 52"] by simp
  have e2: "(2::rat) powi (exponent x + 1) = 2 ^ 53 * 2 powi (exponent x - 52)"
    using power_int_add [of "2::rat" 53 "exponent x - 52"] by (simp add: add.commute)
  show "of_int (2 ^ 52) \<le> x / 2 powi (exponent x - 52)"
    using b(1) q unfolding e1 by (simp add: pos_le_divide_eq)
  show "x / 2 powi (exponent x - 52) < of_int (2 ^ 53)"
    using b(2) q unfolding e2 by (simp add: pos_divide_less_eq)
qed

lemma double_binade:
  assumes "0 < x"
  shows "2 powi exponent x \<le> double x" and "double x \<le> 2 powi (exponent x + 1)"
proof -
  let ?q = "(2::rat) powi (exponent x - 52)"
  have q: "0 < ?q" by simp
  have e1: "(2::rat) powi exponent x = of_int (2 ^ 52) * ?q"
    using power_int_add [of "2::rat" 52 "exponent x - 52"] by simp
  have e2: "(2::rat) powi (exponent x + 1) = of_int (2 ^ 53) * ?q"
    using power_int_add [of "2::rat" 53 "exponent x - 52"] by (simp add: add.commute)
  have "2 ^ 52 \<le> round_even (x / ?q)"
    by (rule round_even_ge) (rule scaled_bounds(1) [OF assms])
  then have "(of_int (2 ^ 52) :: rat) \<le> of_int (round_even (x / ?q))"
    by (simp only: of_int_le_iff)
  then show "2 powi exponent x \<le> double x"
    unfolding e1 double_pos [OF assms] using q by (simp only: mult_le_cancel_right_pos)
  have "round_even (x / ?q) \<le> 2 ^ 53"
    by (rule round_even_le) (rule less_imp_le, rule scaled_bounds(2) [OF assms])
  then have "(of_int (round_even (x / ?q)) :: rat) \<le> of_int (2 ^ 53)"
    by (simp only: of_int_le_iff)
  then show "double x \<le> 2 powi (exponent x + 1)"
    unfolding e2 double_pos [OF assms] using q by (simp only: mult_le_cancel_right_pos)
qed

lemma double_pos_pos: "0 < x \<Longrightarrow> 0 < double x"
  using double_binade(1) [of x] zero_less_power_int [of "2::rat" "exponent x"]
  by (meson less_le_trans zero_less_numeral)

lemma double_nonneg: "0 \<le> x \<Longrightarrow> 0 \<le> double x"
  using double_pos_pos [of x] by (cases "x = 0") (simp_all add: less_imp_le)

lemma double_mono_pos:
  assumes "0 < x" "x \<le> y"
  shows "double x \<le> double y"
proof -
  have y: "0 < y" using assms by simp
  from exponent_bounds [of x] exponent_bounds [of y] assms y
  have bx: "2 powi exponent x \<le> x" and byu: "y < 2 powi (exponent y + 1)" by simp_all
  have "(2::rat) powi exponent x < 2 powi (exponent y + 1)" using bx byu assms(2) by simp
  then have le: "exponent x \<le> exponent y"
    by (metis not_less power_int_increasing one_le_numeral leD zle_add1_eq_le)
  show ?thesis
  proof (cases "exponent x = exponent y")
    case True
    let ?q = "(2::rat) powi (exponent y - 52)"
    have q: "0 < ?q" by simp
    have "x / ?q \<le> y / ?q" using assms(2) q by (simp add: divide_right_mono)
    then have "round_even (x / ?q) \<le> round_even (y / ?q)" by (rule round_even_mono)
    then have "(of_int (round_even (x / ?q)) :: rat) \<le> of_int (round_even (y / ?q))"
      by (simp only: of_int_le_iff)
    then show ?thesis
      unfolding double_pos [OF assms(1)] double_pos [OF y] True
      using q by (simp only: mult_le_cancel_right_pos)
  next
    case False
    then have "exponent x + 1 \<le> exponent y" using le by simp
    then have "(2::rat) powi (exponent x + 1) \<le> 2 powi exponent y"
      by (intro power_int_increasing) simp_all
    then show ?thesis
      using double_binade(2) [OF assms(1)] double_binade(1) [OF y] by linarith
  qed
qed

lemma double_mono:
  assumes "x \<le> y"
  shows "double x \<le> double y"
proof -
  consider "0 < x" | "x \<le> 0" "0 \<le> y" | "y < 0" by linarith
  then show ?thesis
  proof cases
    case 1
    then show ?thesis using assms by (rule double_mono_pos)
  next
    case 2
    have "double x \<le> 0" using double_nonneg [of "- x"] 2(1) by (simp add: double_minus)
    moreover have "0 \<le> double y" using 2(2) by (rule double_nonneg)
    ultimately show ?thesis by simp
  next
    case 3
    then have "0 < - y" "- y \<le> - x" using assms by simp_all
    then have "double (- y) \<le> double (- x)" by (rule double_mono_pos)
    then show ?thesis by (simp add: double_minus)
  qed
qed

lemma double_idem: "double (double x) = double x"
proof -
  have pos: "double (double x) = double x" if "0 < x" for x :: rat
  proof -
    let ?e = "exponent x"
    let ?q = "(2::rat) powi (?e - 52)"
    let ?r = "round_even (x / ?q)"
    have q: "0 < ?q" by simp
    have dx: "double x = of_int ?r * ?q" by (rule double_pos [OF that])
    have lo: "2 ^ 52 \<le> ?r" by (rule round_even_ge) (rule scaled_bounds(1) [OF that])
    have hi: "?r \<le> 2 ^ 53"
      by (rule round_even_le) (rule less_imp_le, rule scaled_bounds(2) [OF that])
    have dpos: "0 < double x" by (rule double_pos_pos [OF that])
    have e1: "(2::rat) powi ?e = of_int (2 ^ 52) * ?q"
      using power_int_add [of "2::rat" 52 "?e - 52"] by simp
    have e2: "(2::rat) powi (?e + 1) = of_int (2 ^ 53) * ?q"
      using power_int_add [of "2::rat" 53 "?e - 52"] by (simp add: add.commute)
    show ?thesis
    proof (cases "?r = 2 ^ 53")
      case True
      then have v: "double x = 2 powi (?e + 1)" unfolding dx e2 by simp
      have ex: "exponent (double x) = ?e + 1"
        by (rule exponent_unique) (simp_all add: v power_int_strict_increasing)
      have "(2::rat) powi (?e + 1) = 2 powi (52 + (?e + 1 - 52))"
        by (rule arg_cong [where f = "power_int 2"]) simp
      also have "\<dots> = 2 powi 52 * 2 powi (?e + 1 - 52)" by (rule power_int_add) simp
      finally have sp: "(2::rat) powi (?e + 1) = of_int (2 ^ 52) * 2 powi (?e + 1 - 52)" by simp
      have "double x / 2 powi (?e + 1 - 52) = of_int (2 ^ 52)"
        unfolding v by (subst sp) simp
      then have "double (double x) = of_int (round_even (of_int (2 ^ 52))) * 2 powi (?e + 1 - 52)"
        unfolding double_pos [OF dpos] ex by (simp only:)
      also have "\<dots> = of_int (2 ^ 52) * 2 powi (?e + 1 - 52)"
        by (simp only: round_even_of_int)
      also have "\<dots> = double x" unfolding v sp ..
      finally show ?thesis .
    next
      case False
      then have "?r < 2 ^ 53" using hi by simp
      then have "(of_int ?r :: rat) < of_int (2 ^ 53)" by (simp only: of_int_less_iff)
      then have u: "double x < 2 powi (?e + 1)"
        unfolding dx e2 using q by (simp only: mult_less_cancel_right_pos)
      have l: "2 powi ?e \<le> double x" by (rule double_binade(1) [OF that])
      have ex: "exponent (double x) = ?e"
        by (rule exponent_unique) (use l u dpos in simp_all)
      have "double x / ?q = of_int ?r" unfolding dx using q by simp
      then show ?thesis
        unfolding double_pos [OF dpos] ex by (simp add: dx)
    qed
  qed
  consider "0 < x" | "x = 0" | "0 < - x" by linarith
  then show ?thesis
  proof cases
    case 1
    then show ?thesis by (rule pos)
  next
    case 2
    then show ?thesis by simp
  next
    case 3
    from pos [OF this] show ?thesis by (simp add: double_minus)
  qed
qed

lemma literals:
  "double (13 / 10) = 5854679515581645 / 4503599627370496"
  "double (4 / 5) = 3602879701896397 / 4503599627370496"
  "double (11 / 10) = 2476979795053773 / 2251799813685248"
  "double (21 / 20) = 4728779608739021 / 4503599627370496"
  "double (9 / 10) = 8106479329266893 / 9007199254740992"
  "double (6 / 5) = 5404319552844595 / 4503599627370496"
  "double (2499 / 10000) = 1125449546879887 / 4503599627370496"
  by code_simp+

section \<open>The tick loop\<close>

lemma TICK_MS_value: "TICK_MS = 4691249611844267 / 281474976710656"
  unfolding TICK_MS_def by code_simp

lemma upper_chain:
  "double (4691249611844267 / 281474976710656 + 100) = 8209686820727467 / 70368744177664"
  "fsub (8209686820727467 / 70368744177664) (4691249611844267 / 281474976710656) = 100"
  "fsub (100) (4691249611844267 / 281474976710656) = 5864062014805333 / 70368744177664"
  "fsub (5864062014805333 / 70368744177664) (4691249611844267 / 281474976710656) = 2345624805922133 / 35184372088832"
  "fsub (2345624805922133 / 35184372088832) (4691249611844267 / 281474976710656) = 3518437208883199 / 70368744177664"
  "fsub (3518437208883199 / 70368744177664) (4691249611844267 / 281474976710656) = 586406201480533 / 17592186044416"
  "fsub (586406201480533 / 17592186044416) (4691249611844267 / 281474976710656) = 4691249611844261 / 281474976710656"
  by code_simp+

lemma upper_6: "upper 6 < TICK_MS"
proof -
  have "upper 6 = fsub (fsub (fsub (fsub (fsub (fsub (double (TICK_MS + 100)) TICK_MS) TICK_MS)
      TICK_MS) TICK_MS) TICK_MS) TICK_MS"
    by (simp add: upper_def eval_nat_numeral)
  also have "\<dots> = 4691249611844261 / 281474976710656"
    unfolding TICK_MS_value by (simp only: upper_chain)
  finally show ?thesis unfolding TICK_MS_value by simp
qed

lemma upper_Suc: "upper (Suc k) = fsub (upper k) TICK_MS"
  by (simp add: upper_def)

lemma one_tick_fields [simp]:
  "accumulator (one_tick tp ks s) = fsub (accumulator s) TICK_MS"
  "trace (one_tick tp ks s) = trace s @ [ReadInputs, TickPacked (readInputs ks)]"
  "lastTime (one_tick tp ks s) = lastTime s"
  "latestSnap (one_tick tp ks s) = snd (tp (game s) (readInputs ks))"
  "game (one_tick tp ks s) = fst (tp (game s) (readInputs ks))"
  by (simp_all add: one_tick_def Let_def)

lemma funpow_one_tick_trace:
  "trace ((one_tick tp ks ^^ n) s) = trace s @ ticks n (readInputs ks)"
  by (induction n arbitrary: s) (simp_all add: ticks_def funpow_swap1)

lemma funpow_one_tick_acc:
  "accumulator ((one_tick tp ks ^^ n) s) = ((\<lambda>a. fsub a TICK_MS) ^^ n) (accumulator s)"
  by (induction n) simp_all

lemma tick_loop_bounded:
  assumes "accumulator s \<le> upper j" "upper (j + m) < TICK_MS"
  shows "\<exists>n\<le>m. tick_loop tp ks s = Some ((one_tick tp ks ^^ n) s) \<and>
           (\<forall>k<n. TICK_MS \<le> accumulator ((one_tick tp ks ^^ k) s)) \<and>
           accumulator ((one_tick tp ks ^^ n) s) < TICK_MS"
  using assms
proof (induction m arbitrary: s j)
  case 0
  then have a: "\<not> TICK_MS \<le> accumulator s" by simp
  then have "tick_loop tp ks s = Some s" by (subst tick_loop.simps) simp
  then show ?case using a by simp
next
  case (Suc m)
  show ?case
  proof (cases "TICK_MS \<le> accumulator s")
    case False
    then have "tick_loop tp ks s = Some s" by (subst tick_loop.simps) simp
    then show ?thesis using False by (intro exI [of _ 0]) simp
  next
    case True
    let ?s = "one_tick tp ks s"
    have "accumulator ?s \<le> upper (Suc j)"
      using Suc.prems(1) by (simp add: upper_Suc fsub_def double_mono)
    moreover have "upper (Suc j + m) < TICK_MS" using Suc.prems(2) by simp
    ultimately obtain n where n: "n \<le> m" "tick_loop tp ks ?s = Some ((one_tick tp ks ^^ n) ?s)"
      "\<forall>k<n. TICK_MS \<le> accumulator ((one_tick tp ks ^^ k) ?s)"
      "accumulator ((one_tick tp ks ^^ n) ?s) < TICK_MS"
      using Suc.IH [of ?s "Suc j"] by blast
    have "tick_loop tp ks s = tick_loop tp ks ?s" using True by (subst tick_loop.simps) simp
    then have 1: "tick_loop tp ks s = Some ((one_tick tp ks ^^ Suc n) s)"
      using n(2) by (simp add: funpow_swap1)
    have 2: "\<forall>k<Suc n. TICK_MS \<le> accumulator ((one_tick tp ks ^^ k) s)"
    proof (intro allI impI)
      fix k assume "k < Suc n"
      then show "TICK_MS \<le> accumulator ((one_tick tp ks ^^ k) s)"
        using True n(3) by (cases k) (simp_all add: funpow_swap1)
    qed
    have 3: "accumulator ((one_tick tp ks ^^ Suc n) s) < TICK_MS"
      using n(4) by (simp add: funpow_swap1)
    from 1 2 3 n(1) show ?thesis by (intro exI [of _ "Suc n"]) simp
  qed
qed

lemma tick_loop_Some:
  assumes "tick_loop tp ks s = Some s'"
  shows "\<exists>n. s' = (one_tick tp ks ^^ n) s \<and>
         (\<forall>k<n. TICK_MS \<le> accumulator ((one_tick tp ks ^^ k) s)) \<and>
         accumulator s' < TICK_MS"
  using assms
proof (induct rule: tick_loop.raw_induct)
  case (1 f tp ks s s')
  show ?case
  proof (cases "TICK_MS \<le> accumulator s")
    case False
    then have "s' = s" using 1(2) by simp
    then show ?thesis using False by (intro exI [of _ 0]) simp
  next
    case True
    then have f: "f tp ks (one_tick tp ks s) = Some s'" using 1(2) by simp
    have r: "tick_loop tp ks (one_tick tp ks s) = Some s'"
      using 1(3) True by (subst (asm) tick_loop.simps) simp
    from 1(1) [OF f r] obtain n where n: "s' = (one_tick tp ks ^^ n) (one_tick tp ks s)"
      "\<forall>k<n. TICK_MS \<le> accumulator ((one_tick tp ks ^^ k) (one_tick tp ks s))"
      "accumulator s' < TICK_MS" by blast
    have "\<forall>k<Suc n. TICK_MS \<le> accumulator ((one_tick tp ks ^^ k) s)"
    proof (intro allI impI)
      fix k assume "k < Suc n"
      then show "TICK_MS \<le> accumulator ((one_tick tp ks ^^ k) s)"
        using True n(2) by (cases k) (simp_all add: funpow_swap1)
    qed
    then show ?thesis using n(1,3) by (intro exI [of _ "Suc n"]) (simp add: funpow_swap1)
  qed
qed (fact assms)

section \<open>Input encoding\<close>

lemma if_or: "(if b then w OR m else w) = w OR (if b then m else (0::32 word))"
  by simp

lemma bit_if_push: "bit (if b then push_bit k 1 else (0::32 word)) n \<longleftrightarrow> b \<and> n = k \<and> k < 32"
  by (auto simp: bit_simps)

lemma readInputs_flat:
  "readInputs ks =
     (if pressed ks ''KeyD'' then push_bit 0 1 else 0) OR
     (if pressed ks ''KeyA'' then push_bit 1 1 else 0) OR
     (if pressed ks ''KeyW'' then push_bit 2 1 else 0) OR
     (if pressed ks ''KeyS'' then push_bit 3 1 else 0) OR
     (if pressed ks ''KeyJ'' then push_bit 4 1 else 0) OR
     (if pressed ks ''KeyK'' then push_bit 5 1 else 0) OR
     (if pressed ks ''KeyL'' then push_bit 6 1 else 0) OR
     (if pressed ks ''ShiftLeft'' then push_bit 7 1 else 0) OR
     (if pressed ks ''Space'' then push_bit 8 1 else 0) OR
     (if pressed ks ''ArrowRight'' then push_bit 9 1 else 0) OR
     (if pressed ks ''ArrowLeft'' then push_bit 10 1 else 0) OR
     (if pressed ks ''ArrowUp'' then push_bit 11 1 else 0) OR
     (if pressed ks ''ArrowDown'' then push_bit 12 1 else 0) OR
     (if pressed ks ''Numpad1'' then push_bit 13 1 else 0) OR
     (if pressed ks ''Numpad2'' then push_bit 14 1 else 0) OR
     (if pressed ks ''Numpad3'' then push_bit 15 1 else 0) OR
     (if pressed ks ''Numpad0'' then push_bit 16 1 else 0) OR
     (if pressed ks ''NumpadEnter'' then push_bit 17 1 else 0)"
  unfolding readInputs_def if_or unfolding Let_def
  by (simp only: or.assoc or.left_neutral)

lemma bit_readInputs:
  "bit (readInputs ks) n \<longleftrightarrow>
     (pressed ks ''KeyD'' \<and> n = 0) \<or> (pressed ks ''KeyA'' \<and> n = 1) \<or>
     (pressed ks ''KeyW'' \<and> n = 2) \<or> (pressed ks ''KeyS'' \<and> n = 3) \<or>
     (pressed ks ''KeyJ'' \<and> n = 4) \<or> (pressed ks ''KeyK'' \<and> n = 5) \<or>
     (pressed ks ''KeyL'' \<and> n = 6) \<or> (pressed ks ''ShiftLeft'' \<and> n = 7) \<or>
     (pressed ks ''Space'' \<and> n = 8) \<or> (pressed ks ''ArrowRight'' \<and> n = 9) \<or>
     (pressed ks ''ArrowLeft'' \<and> n = 10) \<or> (pressed ks ''ArrowUp'' \<and> n = 11) \<or>
     (pressed ks ''ArrowDown'' \<and> n = 12) \<or> (pressed ks ''Numpad1'' \<and> n = 13) \<or>
     (pressed ks ''Numpad2'' \<and> n = 14) \<or> (pressed ks ''Numpad3'' \<and> n = 15) \<or>
     (pressed ks ''Numpad0'' \<and> n = 16) \<or> (pressed ks ''NumpadEnter'' \<and> n = 17)"
  unfolding readInputs_flat bit_or_iff bit_if_push by simp

lemma bit_spec_bit: "bit (readInputs ks) (spec_bit p a) \<longleftrightarrow> pressed ks (key_binding p a)"
  unfolding bit_readInputs spec_bit_def by (cases p; cases a; simp)

lemma spec_bit_inj: "spec_bit p a = spec_bit q b \<longleftrightarrow> p = q \<and> a = b"
proof -
  have lt: "action_offset c < 9" for c by (cases c) simp_all
  have inj: "action_offset c = action_offset d \<Longrightarrow> c = d" for c d
    by (cases c; cases d; simp)
  show ?thesis
    using lt [of a] lt [of b] inj [of a b]
    by (cases p; cases q; auto simp: spec_bit_def)
qed

lemma single_key: "readInputs (keydown (key_binding p a) Map.empty) = push_bit (spec_bit p a) 1"
  unfolding readInputs_flat by (cases p; cases a; simp add: pressed_def keydown_def spec_bit_def)

lemma readInputs_cong:
  assumes "\<forall>p a. pressed ks (key_binding p a) = pressed ks' (key_binding p a)"
  shows "readInputs ks = readInputs ks'"
proof -
  have k: "pressed ks (key_binding p a) = pressed ks' (key_binding p a)" for p a
    using assms by blast
  show ?thesis
    unfolding readInputs_flat
    using k [of P1 Forward] k [of P1 Backward] k [of P1 GuardLeft] k [of P1 GuardRight]
      k [of P1 Light] k [of P1 Heavy] k [of P1 Special] k [of P1 Block] k [of P1 Dash]
      k [of P2 Forward] k [of P2 Backward] k [of P2 GuardLeft] k [of P2 GuardRight]
      k [of P2 Light] k [of P2 Heavy] k [of P2 Special] k [of P2 Block] k [of P2 Dash]
    by simp
qed

lemma readInputs_zero_iff:
  "readInputs ks = 0 \<longleftrightarrow> (\<forall>p a. \<not> pressed ks (key_binding p a))"
proof
  assume z: "readInputs ks = 0"
  show "\<forall>p a. \<not> pressed ks (key_binding p a)"
    using bit_spec_bit [of ks] unfolding z by simp
next
  assume "\<forall>p a. \<not> pressed ks (key_binding p a)"
  then have k: "\<not> pressed ks (key_binding p a)" for p a by blast
  show "readInputs ks = 0"
    unfolding readInputs_flat
    using k [of P1 Forward] k [of P1 Backward] k [of P1 GuardLeft] k [of P1 GuardRight]
      k [of P1 Light] k [of P1 Heavy] k [of P1 Special] k [of P1 Block] k [of P1 Dash]
      k [of P2 Forward] k [of P2 Backward] k [of P2 GuardLeft] k [of P2 GuardRight]
      k [of P2 Light] k [of P2 Heavy] k [of P2 Special] k [of P2 Block] k [of P2 Dash]
    by simp
qed

lemma readInputs_high_bits: "18 \<le> n \<Longrightarrow> \<not> bit (readInputs ks) n"
  unfolding bit_readInputs by auto

section \<open>HUD updates\<close>

lemma concat_replicate_single: "concat (replicate n [x]) = replicate n x"
  by (induction n) simp_all

lemma String_repeat_star:
  "String_repeat star n =
     (if max_string_length < n then Inl RangeError else Inr (replicate n 0x2605))"
  by (simp add: String_repeat_def star_def concat_replicate_single)

lemma well_formed_fighters:
  "well_formed snap \<Longrightarrow> \<exists>f1 f2. fighters snap = [f1, f2]"
  by (cases "fighters snap"; cases "tl (fighters snap)"; auto simp: well_formed_def)

lemma p1_labels_Inr:
  "p1_labels f1 h = Inr h' \<Longrightarrow>
     round_wins f1 \<le> max_string_length \<and>
     phase_textContent h' = phase_textContent h \<and> phase_display h' = phase_display h \<and>
     lastHitInfo h' = lastHitInfo h \<and> hitInfoTimer h' = hitInfoTimer h \<and>
     hitInfo_textContent h' = hitInfo_textContent h \<and> hitInfo_opacity h' = hitInfo_opacity h"
  by (auto simp: p1_labels_def String_repeat_star Let_def split: if_splits)

lemma p2_labels_Inr:
  "p2_labels f2 h = Inr h' \<Longrightarrow>
     round_wins f2 \<le> max_string_length \<and>
     phase_textContent h' = phase_textContent h \<and> phase_display h' = phase_display h \<and>
     lastHitInfo h' = lastHitInfo h \<and> hitInfoTimer h' = hitInfoTimer h \<and>
     hitInfo_textContent h' = hitInfo_textContent h \<and> hitInfo_opacity h' = hitInfo_opacity h"
  by (auto simp: p2_labels_def String_repeat_star Let_def split: if_splits)

lemma p1_labels_ok:
  "round_wins f1 \<le> max_string_length \<Longrightarrow> \<exists>h'. p1_labels f1 h = Inr h'"
  by (simp add: p1_labels_def String_repeat_star Let_def)

lemma p2_labels_ok:
  "round_wins f2 \<le> max_string_length \<Longrightarrow> \<exists>h'. p2_labels f2 h = Inr h'"
  by (simp add: p2_labels_def String_repeat_star Let_def)

lemma match_labels_kept [simp]:
  "phase_textContent (match_labels snap h) = phase_textContent h"
  "phase_display (match_labels snap h) = phase_display h"
  "lastHitInfo (match_labels snap h) = lastHitInfo h"
  "hitInfoTimer (match_labels snap h) = hitInfoTimer h"
  "hitInfo_textContent (match_labels snap h) = hitInfo_textContent h"
  "hitInfo_opacity (match_labels snap h) = hitInfo_opacity h"
  by (simp_all add: match_labels_def)

lemma phase_overlay_ok:
  "well_formed snap \<Longrightarrow> \<exists>h'. phase_overlay snap h = Inr h' \<and>
     lastHitInfo h' = lastHitInfo h \<and> hitInfoTimer h' = hitInfoTimer h \<and>
     hitInfo_textContent h' = hitInfo_textContent h \<and> hitInfo_opacity h' = hitInfo_opacity h"
  by (auto simp: phase_overlay_def well_formed_def split: option.splits)

text \<open>
  On a presentable snapshot \<^verbatim>\<open>updateHUD\<close> returns: the overlay is written on a page
  \<open>h0\<close> that differs from the page before the call in the labels of lines 181 to 192
  only, then the hit notification and the health bars.
\<close>

lemma updateHUD_ok:
  assumes "presentable snap"
  shows "\<exists>h0 h1. phase_overlay snap h0 = Inr h1 \<and>
      phase_textContent h0 = phase_textContent h \<and> phase_display h0 = phase_display h \<and>
      lastHitInfo h0 = lastHitInfo h \<and> hitInfoTimer h0 = hitInfoTimer h \<and>
      hitInfo_textContent h0 = hitInfo_textContent h \<and> hitInfo_opacity h0 = hitInfo_opacity h \<and>
      updateHUD snap h = Inr (health_bars (fighters snap ! 0) (fighters snap ! 1) (hit_info snap h1))"
proof -
  from assms have wf: "well_formed snap" by (simp add: presentable_def)
  obtain f1 f2 where fs: "fighters snap = [f1, f2]"
    using well_formed_fighters [OF wf] by blast
  from assms have w: "round_wins f1 \<le> max_string_length" "round_wins f2 \<le> max_string_length"
    by (simp_all add: presentable_def fs)
  obtain ha where ha: "p1_labels f1 h = Inr ha" using p1_labels_ok [OF w(1)] by blast
  obtain hb where hb: "p2_labels f2 ha = Inr hb" using p2_labels_ok [OF w(2)] by blast
  obtain h1 where h1: "phase_overlay snap (match_labels snap hb) = Inr h1"
    using phase_overlay_ok [OF wf] by blast
  have "updateHUD snap h = Inr (health_bars (fighters snap ! 0) (fighters snap ! 1) (hit_info snap h1))"
    by (simp add: updateHUD_def fs ha hb h1)
  then show ?thesis
    using h1 p1_labels_Inr [OF ha] p2_labels_Inr [OF hb]
    by (intro exI [of _ "match_labels snap hb"] exI [of _ h1]) simp
qed

text \<open>Whenever \<^verbatim>\<open>updateHUD\<close> returns, both win counts were small enough.\<close>

lemma updateHUD_Inr:
  assumes "updateHUD snap h = Inr h'"
  shows "\<exists>f1 f2 rest h1. fighters snap = f1 # f2 # rest \<and>
      round_wins f1 \<le> max_string_length \<and> round_wins f2 \<le> max_string_length \<and>
      h' = health_bars f1 f2 (hit_info snap h1)"
proof -
  from assms obtain f1 rest1 where a: "fighters snap = f1 # rest1"
    by (cases "fighters snap") (simp_all add: updateHUD_def)
  from assms a obtain ha where ha: "p1_labels f1 h = Inr ha"
    by (cases "p1_labels f1 h") (simp_all add: updateHUD_def)
  from assms a ha obtain f2 rest where b: "rest1 = f2 # rest"
    by (cases rest1) (simp_all add: updateHUD_def)
  from assms a ha b obtain hb where hb: "p2_labels f2 ha = Inr hb"
    by (cases "p2_labels f2 ha") (simp_all add: updateHUD_def)
  from assms a ha b hb obtain h1 where h1: "phase_overlay snap (match_labels snap hb) = Inr h1"
    by (cases "phase_overlay snap (match_labels snap hb)") (simp_all add: updateHUD_def)
  from assms have "h' = health_bars f1 f2 (hit_info snap h1)"
    by (simp add: updateHUD_def a ha b hb h1)
  then show ?thesis using a b p1_labels_Inr [OF ha] p2_labels_Inr [OF hb] by blast
qed

lemma updateHUD_returns_iff:
  assumes "well_formed snap"
  shows "(\<exists>h'. updateHUD snap h = Inr h') \<longleftrightarrow> presentable snap"
proof
  assume "\<exists>h'. updateHUD snap h = Inr h'"
  then obtain h' where "updateHUD snap h = Inr h'" by blast
  from updateHUD_Inr [OF this] show "presentable snap"
    using assms by (auto simp: presentable_def)
next
  assume "presentable snap"
  from updateHUD_ok [OF this, of h] show "\<exists>h'. updateHUD snap h = Inr h'" by blast
qed

lemma health_bars_hit [simp]:
  "lastHitInfo (health_bars f1 f2 h) = lastHitInfo h"
  "hitInfoTimer (health_bars f1 f2 h) = hitInfoTimer h"
  "hitInfo_textContent (health_bars f1 f2 h) = hitInfo_textContent h"
  "hitInfo_opacity (health_bars f1 f2 h) = hitInfo_opacity h"
  "phase_display (health_bars f1 f2 h) = phase_display h"
  "phase_textContent (health_bars f1 f2 h) = phase_textContent h"
  by (simp_all add: health_bars_def)

lemma hit_info_phase [simp]:
  "phase_display (hit_info snap h) = phase_display h"
  "phase_textContent (hit_info snap h) = phase_textContent h"
  by (simp_all add: hit_info_def Let_def split: option.splits)

lemma hit_info_cong:
  assumes "lastHitInfo h1 = lastHitInfo h" "hitInfoTimer h1 = hitInfoTimer h"
      "hitInfo_textContent h1 = hitInfo_textContent h" "hitInfo_opacity h1 = hitInfo_opacity h"
  shows "lastHitInfo (hit_info snap h1) = lastHitInfo (hit_info snap h)"
     "hitInfoTimer (hit_info snap h1) = hitInfoTimer (hit_info snap h)"
     "hitInfo_textContent (hit_info snap h1) = hitInfo_textContent (hit_info snap h)"
     "hitInfo_opacity (hit_info snap h1) = hitInfo_opacity (hit_info snap h)"
  using assms by (simp_all add: hit_info_def Let_def split: option.splits)

lemma updateHUD_hit:
  assumes "presentable snap"
  shows "\<exists>h'. updateHUD snap h = Inr h' \<and>
     lastHitInfo h' = lastHitInfo (hit_info snap h) \<and>
     hitInfoTimer h' = hitInfoTimer (hit_info snap h) \<and>
     hitInfo_textContent h' = hitInfo_textContent (hit_info snap h) \<and>
     hitInfo_opacity h' = hitInfo_opacity (hit_info snap h)"
proof -
  from assms have wf: "well_formed snap" by (simp add: presentable_def)
  obtain h0 h1 where h1: "phase_overlay snap h0 = Inr h1"
    and same0: "lastHitInfo h0 = lastHitInfo h" "hitInfoTimer h0 = hitInfoTimer h"
      "hitInfo_textContent h0 = hitInfo_textContent h" "hitInfo_opacity h0 = hitInfo_opacity h"
    and u: "updateHUD snap h =
      Inr (health_bars (fighters snap ! 0) (fighters snap ! 1) (hit_info snap h1))"
    using updateHUD_ok [OF assms, of h] by blast
  from phase_overlay_ok [OF wf, of h0] h1 same0
  have same: "lastHitInfo h1 = lastHitInfo h" "hitInfoTimer h1 = hitInfoTimer h"
      "hitInfo_textContent h1 = hitInfo_textContent h" "hitInfo_opacity h1 = hitInfo_opacity h"
    by auto
  show ?thesis unfolding u using hit_info_cong [OF same] by simp
qed

lemma hit_info_change:
  assumes "d \<noteq> []" "lastHitInfo h \<noteq> Some d" "last_hit_info snap = Some d"
  shows "lastHitInfo (hit_info snap h) = Some d" "hitInfoTimer (hit_info snap h) = 119"
    "hitInfo_textContent (hit_info snap h) = d" "hitInfo_opacity (hit_info snap h) = ''1''"
  using assms by (auto simp: hit_info_def Let_def)

lemma hit_info_repeat:
  assumes "lastHitInfo h = Some d" "last_hit_info snap = Some d"
  shows "lastHitInfo (hit_info snap h) = Some d"
    "hitInfoTimer (hit_info snap h) = hitInfoTimer h - 1"
    "hitInfo_textContent (hit_info snap h) = hitInfo_textContent h"
    "hitInfo_opacity (hit_info snap h) = (if hitInfoTimer h = 1 then ''0'' else hitInfo_opacity h)"
  using assms by (auto simp: hit_info_def Let_def)

lemma present_all_repeat:
  assumes "\<forall>snap \<in> set snaps. presentable snap \<and> last_hit_info snap = Some d"
    and "lastHitInfo h = Some d"
  shows "\<exists>h'. present_all snaps h = Inr h' \<and> lastHitInfo h' = Some d \<and>
      hitInfoTimer h' = hitInfoTimer h - length snaps \<and>
      hitInfo_textContent h' = hitInfo_textContent h \<and>
      hitInfo_opacity h' =
        (if 0 < hitInfoTimer h \<and> hitInfoTimer h \<le> length snaps then ''0'' else hitInfo_opacity h)"
  using assms
proof (induction snaps arbitrary: h)
  case Nil
  then show ?case by auto
next
  case (Cons snap snaps)
  then have wf: "presentable snap" and d: "last_hit_info snap = Some d" by simp_all
  obtain h1 where h1: "updateHUD snap h = Inr h1"
    and l: "lastHitInfo h1 = lastHitInfo (hit_info snap h)"
    and t: "hitInfoTimer h1 = hitInfoTimer (hit_info snap h)"
    and c: "hitInfo_textContent h1 = hitInfo_textContent (hit_info snap h)"
    and p: "hitInfo_opacity h1 = hitInfo_opacity (hit_info snap h)"
    using updateHUD_hit [OF wf, of h] by blast
  note r = hit_info_repeat [OF Cons.prems(2) d]
  have l1: "lastHitInfo h1 = Some d" using l r by simp
  obtain h' where h': "present_all snaps h1 = Inr h'" "lastHitInfo h' = Some d"
      "hitInfoTimer h' = hitInfoTimer h1 - length snaps"
      "hitInfo_textContent h' = hitInfo_textContent h1"
      "hitInfo_opacity h' =
        (if 0 < hitInfoTimer h1 \<and> hitInfoTimer h1 \<le> length snaps then ''0'' else hitInfo_opacity h1)"
    using Cons.IH [of h1] Cons.prems(1) l1 by auto
  show ?case
    using h1 h' t c p r by (auto split: if_splits)
qed

section \<open>One frame\<close>

lemma TICK_MS_pos: "0 < TICK_MS"
  unfolding TICK_MS_value by simp

lemma funpow_one_tick_kept [simp]:
  "lastTime ((one_tick tp ks ^^ n) s) = lastTime s"
  "p1Mesh ((one_tick tp ks ^^ n) s) = p1Mesh s"
  "p2Mesh ((one_tick tp ks ^^ n) s) = p2Mesh s"
  "hud ((one_tick tp ks ^^ n) s) = hud s"
  by (induction n) (simp_all add: one_tick_def Let_def)

lemma funpow_one_tick_nonneg:
  assumes "0 \<le> accumulator s" "\<forall>k<n. TICK_MS \<le> accumulator ((one_tick tp ks ^^ k) s)"
  shows "0 \<le> accumulator ((one_tick tp ks ^^ n) s)"
proof (cases n)
  case 0
  then show ?thesis using assms(1) by simp
next
  case (Suc m)
  then have "TICK_MS \<le> accumulator ((one_tick tp ks ^^ m) s)" using assms(2) by simp
  then have "0 \<le> accumulator ((one_tick tp ks ^^ m) s) - TICK_MS" by simp
  then show ?thesis unfolding Suc by (simp add: fsub_def double_nonneg)
qed

lemma funpow_fsub_double:
  "double (((\<lambda>a. fsub a TICK_MS) ^^ n) (fadd x y)) = ((\<lambda>a. fsub a TICK_MS) ^^ n) (fadd x y)"
  by (cases n) (simp_all add: fadd_def fsub_def double_idem)

lemma tick_step_bounded:
  assumes "accumulator s < TICK_MS"
  shows "\<exists>n\<le>6. tick_step tp ks e s =
           Some ((one_tick tp ks ^^ n) (s\<lparr>accumulator := fadd (accumulator s) (min e 100)\<rparr>)) \<and>
         (\<forall>k<n. TICK_MS \<le> ((\<lambda>a. fsub a TICK_MS) ^^ k) (fadd (accumulator s) (min e 100))) \<and>
         ((\<lambda>a. fsub a TICK_MS) ^^ n) (fadd (accumulator s) (min e 100)) < TICK_MS"
proof -
  let ?s = "s\<lparr>accumulator := fadd (accumulator s) (min e 100)\<rparr>"
  have "accumulator s + min e 100 \<le> TICK_MS + 100" using assms by simp
  then have "accumulator ?s \<le> upper 0" by (simp add: upper_def fadd_def double_mono)
  moreover have "upper (0 + 6) < TICK_MS" using upper_6 by simp
  ultimately obtain n where "n \<le> 6" "tick_loop tp ks ?s = Some ((one_tick tp ks ^^ n) ?s)"
      "\<forall>k<n. TICK_MS \<le> accumulator ((one_tick tp ks ^^ k) ?s)"
      "accumulator ((one_tick tp ks ^^ n) ?s) < TICK_MS"
    using tick_loop_bounded [of ?s 0 6 tp ks] by blast
  then show ?thesis
    by (intro exI [of _ n]) (simp add: tick_step_def funpow_one_tick_acc)
qed

lemma funpow_one_tick_zero [simp]: "(one_tick tp ks ^^ 0) s = s"
  by simp

lemma render_kept [simp]:
  "accumulator (fst (render s)) = accumulator s"
  "trace (fst (render s)) = trace s"
  "lastTime (fst (render s)) = lastTime s"
  by (simp_all add: render_def Let_def split: list.splits sum.splits)

lemma loop_step:
  assumes "accumulator s < TICK_MS"
  shows "\<exists>s1 err n. loop tp ks now s = Some (s1, err) \<and> n \<le> 6 \<and>
      trace s1 = trace s @ ticks n (readInputs ks) \<and>
      accumulator s1 < TICK_MS \<and>
      double (accumulator s1) = accumulator s1 \<and> lastTime s1 = now \<and>
      (0 \<le> accumulator s \<and> lastTime s \<le> now \<longrightarrow> 0 \<le> accumulator s1)"
proof -
  let ?e = "fsub now (lastTime s)"
  let ?s = "s\<lparr>lastTime := now\<rparr>"
  let ?a = "fadd (accumulator s) (min ?e 100)"
  let ?t = "?s\<lparr>accumulator := ?a\<rparr>"
  have "accumulator ?s < TICK_MS" using assms by simp
  from tick_step_bounded [OF this, of tp ks ?e] obtain n where n: "n \<le> 6"
    and r: "tick_step tp ks ?e ?s = Some ((one_tick tp ks ^^ n) ?t)"
    and g: "\<forall>k<n. TICK_MS \<le> ((\<lambda>a. fsub a TICK_MS) ^^ k) ?a"
    and l: "((\<lambda>a. fsub a TICK_MS) ^^ n) ?a < TICK_MS"
    by auto
  let ?s1 = "(one_tick tp ks ^^ n) ?t"
  have acc: "accumulator ?s1 = ((\<lambda>a. fsub a TICK_MS) ^^ n) ?a"
    by (simp add: funpow_one_tick_acc)
  have ge: "\<forall>k<n. TICK_MS \<le> accumulator ((one_tick tp ks ^^ k) ?t)"
    using g by (simp add: funpow_one_tick_acc)
  have nn: "0 \<le> accumulator ?s1" if "0 \<le> accumulator s" "lastTime s \<le> now"
  proof -
    have "0 \<le> ?e" using that(2) by (simp add: fsub_def double_nonneg)
    then have "0 \<le> ?a" using that(1) by (simp add: fadd_def double_nonneg)
    then show ?thesis using ge by (intro funpow_one_tick_nonneg) simp_all
  qed
  have "loop tp ks now s = Some (fst (render ?s1), snd (render ?s1))"
    by (simp add: loop_def r)
  moreover have "trace (fst (render ?s1)) = trace s @ ticks n (readInputs ks)"
    by (simp add: funpow_one_tick_trace)
  moreover have "double (accumulator ?s1) = accumulator ?s1"
    unfolding acc by (rule funpow_fsub_double)
  ultimately show ?thesis
    using n nn l acc by (intro exI [of _ "fst (render ?s1)"] exI [of _ "snd (render ?s1)"]
      exI [of _ n]) simp
qed

lemma run_frames_invariant:
  assumes "accumulator s < TICK_MS" and "double (accumulator s) = accumulator s"
  shows "\<exists>s'. run_frames tp inputs s = Some s' \<and>
      accumulator s' < TICK_MS \<and> double (accumulator s') = accumulator s' \<and>
      lastTime s' = last (lastTime s # map snd inputs) \<and>
      (0 \<le> accumulator s \<and> sorted (lastTime s # map snd inputs) \<longrightarrow> 0 \<le> accumulator s')"
  using assms
proof (induction inputs arbitrary: s)
  case Nil
  then show ?case by simp
next
  case (Cons i inputs)
  obtain ks now where i: "i = (ks, now)" by (cases i)
  from loop_step [OF Cons.prems(1), of tp ks now] obtain s1 err where
    s1: "loop tp ks now s = Some (s1, err)" "accumulator s1 < TICK_MS"
      "double (accumulator s1) = accumulator s1" "lastTime s1 = now"
      "0 \<le> accumulator s \<and> lastTime s \<le> now \<longrightarrow> 0 \<le> accumulator s1"
    by blast
  from Cons.IH [OF s1(2,3)] obtain s' where
    s': "run_frames tp inputs s1 = Some s'" "accumulator s' < TICK_MS"
    "double (accumulator s') = accumulator s'"
    "lastTime s' = last (lastTime s1 # map snd inputs)"
    "0 \<le> accumulator s1 \<and> sorted (lastTime s1 # map snd inputs) \<longrightarrow> 0 \<le> accumulator s'"
    by blast
  have "0 \<le> accumulator s'"
    if "0 \<le> accumulator s" "sorted (lastTime s # map snd (i # inputs))"
  proof -
    from that(2) have "lastTime s \<le> now" "sorted (now # map snd inputs)" by (simp_all add: i)
    then show ?thesis using that(1) s1(4,5) s'(5) by simp
  qed
  then show ?case using s' by (simp add: i s1(1) s1(4))
qed

lemma tick_loop_unroll:
  assumes "\<forall>k<n. TICK_MS \<le> accumulator ((one_tick tp ks ^^ k) s)"
    and "accumulator ((one_tick tp ks ^^ n) s) < TICK_MS"
  shows "tick_loop tp ks s = Some ((one_tick tp ks ^^ n) s)"
  using assms
proof (induction n arbitrary: s)
  case 0
  then show ?case by (subst tick_loop.simps) simp
next
  case (Suc n)
  have "TICK_MS \<le> accumulator s" using Suc.prems(1) by auto
  then have "tick_loop tp ks s = tick_loop tp ks (one_tick tp ks s)"
    by (subst tick_loop.simps) simp
  moreover have "\<forall>k<n. TICK_MS \<le> accumulator ((one_tick tp ks ^^ k) (one_tick tp ks s))"
  proof (intro allI impI)
    fix k assume "k < n"
    then have "Suc k < Suc n" by simp
    then show "TICK_MS \<le> accumulator ((one_tick tp ks ^^ k) (one_tick tp ks s))"
      using Suc.prems(1) funpow_swap1 [of "one_tick tp ks" k s] by (metis funpow.simps(2) o_apply)
  qed
  moreover have "accumulator ((one_tick tp ks ^^ n) (one_tick tp ks s)) < TICK_MS"
    using Suc.prems(2) by (simp add: funpow_swap1)
  ultimately show ?case using Suc.IH [of "one_tick tp ks s"] by (simp add: funpow_swap1)
qed

lemma four_ticks_chain:
  "fadd 0 (4691249611844267 / 70368744177664) = 4691249611844267 / 70368744177664"
  "fsub (4691249611844267 / 70368744177664) (4691249611844267 / 281474976710656) = 50"
  "fsub (50) (4691249611844267 / 281474976710656) = 2345624805922133 / 70368744177664"
  "fsub (2345624805922133 / 70368744177664) (4691249611844267 / 281474976710656) = 4691249611844265 / 281474976710656"
  by code_simp+

lemma tick_step_idle:
  assumes "fadd (accumulator s) (min e 100) < TICK_MS"
  shows "tick_step tp ks e s = Some (s\<lparr>accumulator := fadd (accumulator s) (min e 100)\<rparr>)"
  using assms unfolding tick_step_def Let_def by (subst tick_loop.simps) simp

lemma tick_step_one:
  assumes "fadd (accumulator s) (min e 100) = TICK_MS"
  shows "tick_step tp ks e s = Some (one_tick tp ks (s\<lparr>accumulator := TICK_MS\<rparr>))"
proof -
  let ?t = "s\<lparr>accumulator := TICK_MS\<rparr>"
  have "tick_loop tp ks (one_tick tp ks ?t) = Some (one_tick tp ks ?t)"
    using TICK_MS_pos by (subst tick_loop.simps) (simp add: fsub_def)
  then have "tick_loop tp ks ?t = Some (one_tick tp ks ?t)"
    by (subst tick_loop.simps) simp
  then show ?thesis by (simp add: tick_step_def assms)
qed

lemma accumulate_simps [simp]:
  "accumulate a [] = a"
  "accumulate a (e # es) = accumulate (fadd a (min e 100)) es"
  "accumulate a (es @ [e]) = fadd (accumulate a es) (min e 100)"
  by (simp_all add: accumulate_def)

lemma tick_steps_idle:
  assumes "\<forall>k<length es. accumulate (accumulator s) (take (Suc k) es) < TICK_MS"
  shows "tick_steps tp ks es s = Some (s\<lparr>accumulator := accumulate (accumulator s) es\<rparr>)"
  using assms
proof (induction es arbitrary: s)
  case Nil
  then show ?case by simp
next
  case (Cons e es)
  let ?s = "s\<lparr>accumulator := fadd (accumulator s) (min e 100)\<rparr>"
  have "accumulate (accumulator s) (take (Suc 0) (e # es)) < TICK_MS"
    using Cons.prems by blast
  then have 1: "tick_step tp ks e s = Some ?s" by (simp add: tick_step_idle)
  have "\<forall>k<length es. accumulate (accumulator ?s) (take (Suc k) es) < TICK_MS"
  proof (intro allI impI)
    fix k assume "k < length es"
    then have "Suc k < length (e # es)" by simp
    then have "accumulate (accumulator s) (take (Suc (Suc k)) (e # es)) < TICK_MS"
      using Cons.prems by blast
    then show "accumulate (accumulator ?s) (take (Suc k) es) < TICK_MS" by simp
  qed
  from Cons.IH [OF this] show ?case by (simp add: 1)
qed

lemma tick_steps_append:
  "tick_steps tp ks (es @ es') s =
     (case tick_steps tp ks es s of None \<Rightarrow> None | Some s' \<Rightarrow> tick_steps tp ks es' s')"
  by (induction es arbitrary: s) (simp_all split: option.splits)

lemma tick_steps_once:
  assumes "\<forall>k<length es. accumulate (accumulator s) (take (Suc k) es) < TICK_MS"
    and "accumulate (accumulator s) (es @ [e]) = TICK_MS"
  shows "\<exists>s'. tick_steps tp ks (es @ [e]) s = Some s' \<and>
      trace s' = trace s @ ticks 1 (readInputs ks) \<and> accumulator s' = 0 \<and>
      latestSnap s' = snd (tp (game s) (readInputs ks))"
proof -
  let ?s = "s\<lparr>accumulator := accumulate (accumulator s) es\<rparr>"
  have 1: "tick_steps tp ks es s = Some ?s" by (rule tick_steps_idle [OF assms(1)])
  have "fadd (accumulator ?s) (min e 100) = TICK_MS" using assms(2) by simp
  from tick_step_one [OF this, of tp ks]
  have "tick_steps tp ks (es @ [e]) s = Some (one_tick tp ks (?s\<lparr>accumulator := TICK_MS\<rparr>))"
    by (simp add: tick_steps_append 1)
  then show ?thesis by (simp add: ticks_def fsub_def)
qed

lemma slow_sum_chain:
  "fadd (0) (2204887317566805 / 140737488355328) = 2204887317566805 / 140737488355328"
  "fadd (2204887317566805 / 140737488355328) (1 / 1125899906842624) = 2204887317566805 / 140737488355328"
  "fadd (2204887317566805 / 140737488355328) (1 / 1125899906842624) = 2204887317566805 / 140737488355328"
  "fadd (2204887317566805 / 140737488355328) (562949953421313 / 562949953421312) = 2345624805922133 / 140737488355328"
  by code_simp+

section \<open>The claims\<close>

subsection \<open>Ticks per frame\<close>

text \<open>
  C1, as stated, at two inputs. First, an empty accumulator and an elapsed time of four
  tick periods (4 * \<open>TICK_MS\<close> is a binary64 value, about 66.67 ms, below the clamp):
  after the addition the accumulator holds exactly four tick periods, but the engine is
  called three times, because the third subtraction rounds to a value one unit in the
  last place below the tick period and the loop stops. Second, an empty accumulator and
  four frames whose elapsed times, all binary64 values, sum to exactly one tick period:
  two of the additions round down, the accumulator ends one unit in the last place below
  the tick period, and the engine is not called at all.
\<close>

theorem tick_count_counterexample:
  "map_option trace (tick_step stub_engine Map.empty (4 * TICK_MS) frame0) =
     Some [ReadInputs, TickPacked 0, ReadInputs, TickPacked 0, ReadInputs, TickPacked 0] \<and>
   fadd (accumulator frame0) (min (4 * TICK_MS) 100) = 4 * TICK_MS \<and>
   sum_list 
     [2204887317566805 / 140737488355328, 1 / 1125899906842624, 1 / 1125899906842624, 562949953421313 / 562949953421312] = TICK_MS \<and>
   map_option trace (tick_steps stub_engine Map.empty 
     [2204887317566805 / 140737488355328, 1 / 1125899906842624, 1 / 1125899906842624, 562949953421313 / 562949953421312] frame0) = Some []"
proof -
  have first: "map_option trace (tick_step stub_engine Map.empty (4 * TICK_MS) frame0) =
     Some [ReadInputs, TickPacked 0, ReadInputs, TickPacked 0, ReadInputs, TickPacked 0] \<and>
   fadd (accumulator frame0) (min (4 * TICK_MS) 100) = 4 * TICK_MS"
  proof -
    define t where "t = frame0\<lparr>accumulator := fadd (accumulator frame0) (min (4 * TICK_MS) 100)\<rparr>"
    have m: "min (4 * TICK_MS) 100 = 4691249611844267 / 70368744177664" unfolding TICK_MS_value by simp
    have f: "fadd (accumulator frame0) (min (4 * TICK_MS) 100) = 4691249611844267 / 70368744177664"
      unfolding m by (simp add: frame0_def four_ticks_chain)
    have a: "accumulator t = 4691249611844267 / 70368744177664" unfolding t_def f by simp
    have tr: "trace t = []" unfolding t_def by (simp add: frame0_def)
    have k: "k < 3 \<longleftrightarrow> k = 0 \<or> k = 1 \<or> k = 2" for k :: nat by auto
    have "tick_loop stub_engine Map.empty t = Some ((one_tick stub_engine Map.empty ^^ 3) t)"
    proof (rule tick_loop_unroll)
      show "\<forall>k<3. TICK_MS \<le> accumulator ((one_tick stub_engine Map.empty ^^ k) t)"
        unfolding k funpow_one_tick_acc a TICK_MS_value
        by (simp add: eval_nat_numeral four_ticks_chain)
      show "accumulator ((one_tick stub_engine Map.empty ^^ 3) t) < TICK_MS"
        unfolding funpow_one_tick_acc a TICK_MS_value
        by (simp add: eval_nat_numeral four_ticks_chain)
    qed
    then have "map_option trace (tick_step stub_engine Map.empty (4 * TICK_MS) frame0) =
        Some (ticks 3 (readInputs Map.empty))"
      by (simp add: tick_step_def funpow_one_tick_trace tr flip: t_def)
    moreover have "readInputs Map.empty = 0" by (simp add: readInputs_zero_iff pressed_def)
    moreover have "fadd (accumulator frame0) (min (4 * TICK_MS) 100) = 4 * TICK_MS"
      unfolding f unfolding TICK_MS_value by simp
    ultimately show ?thesis
      by (simp add: ticks_def eval_nat_numeral)
  qed
  have total: "sum_list 
     [2204887317566805 / 140737488355328, 1 / 1125899906842624, 1 / 1125899906842624, 562949953421313 / 562949953421312] = TICK_MS"
    unfolding TICK_MS_value by simp
  have "\<forall>k<length 
     [2204887317566805 / 140737488355328, 1 / 1125899906842624, 1 / 1125899906842624, 562949953421313 / 562949953421312]. accumulate (accumulator frame0) (take (Suc k) 
     [2204887317566805 / 140737488355328, 1 / 1125899906842624, 1 / 1125899906842624, 562949953421313 / 562949953421312]) < TICK_MS"
  proof (intro allI impI)
    fix k :: nat
    assume "k < length 
     [2204887317566805 / 140737488355328, 1 / 1125899906842624, 1 / 1125899906842624, 562949953421313 / 562949953421312]"
    then consider "k = 0" | "k = 1" | "k = 2" | "k = 3" by (auto simp: less_Suc_eq)
    then show "accumulate (accumulator frame0) (take (Suc k) 
     [2204887317566805 / 140737488355328, 1 / 1125899906842624, 1 / 1125899906842624, 562949953421313 / 562949953421312]) < TICK_MS"
      unfolding TICK_MS_value by cases (simp_all add: frame0_def slow_sum_chain)
  qed
  from tick_steps_idle [OF this, of stub_engine Map.empty]
  have second: "map_option trace (tick_steps stub_engine Map.empty 
     [2204887317566805 / 140737488355328, 1 / 1125899906842624, 1 / 1125899906842624, 562949953421313 / 562949953421312] frame0) = Some []"
    by (simp add: frame0_def)
  from first total second show ?thesis by (simp only: simp_thms)
qed

text \<open>
  C1, amended. Take a frame whose accumulator holds a binary64 value below the tick
  period, as it does after every frame. The step returns. It makes one engine call per
  turn of the loop, each right after one input sample of its own, and the loop turns as
  long as the accumulator, from which every turn takes one tick period in binary64
  arithmetic, still holds a full tick period; on return it holds less than one. No tick
  runs exactly when the accumulator after the addition is below the tick period, and then
  the engine and the latest snapshot are as before; with an elapsed time of 0 the whole
  state is as before. When the accumulator after the addition is exactly one tick period,
  exactly one tick runs and the accumulator is left at 0. At most six ticks run. Over a
  sequence of frames that keep the accumulator below the tick period until the last one
  brings it to exactly one tick period, the engine is called exactly once.
\<close>

theorem tick_schedule:
  assumes "double (accumulator s) = accumulator s" and "accumulator s < TICK_MS"
  shows "(\<exists>n s'. tick_step tp ks e s = Some s' \<and> n \<le> 6 \<and>
     s' = (one_tick tp ks ^^ n) (s\<lparr>accumulator := fadd (accumulator s) (min e 100)\<rparr>) \<and>
     trace s' = trace s @ ticks n (readInputs ks) \<and>
     (\<forall>k<n. TICK_MS \<le> ((\<lambda>a. fsub a TICK_MS) ^^ k) (fadd (accumulator s) (min e 100))) \<and>
     accumulator s' = ((\<lambda>a. fsub a TICK_MS) ^^ n) (fadd (accumulator s) (min e 100)) \<and>
     accumulator s' < TICK_MS \<and>
     (n = 0 \<longleftrightarrow> fadd (accumulator s) (min e 100) < TICK_MS) \<and>
     (n = 0 \<longrightarrow> latestSnap s' = latestSnap s \<and> game s' = game s) \<and>
     (e = 0 \<longrightarrow> n = 0 \<and> s' = s) \<and>
     (fadd (accumulator s) (min e 100) = TICK_MS \<longrightarrow> n = 1 \<and> accumulator s' = 0)) \<and>
   (\<forall>es e'.
       (\<forall>k<length es. accumulate (accumulator s) (take (Suc k) es) < TICK_MS) \<and>
       accumulate (accumulator s) (es @ [e']) = TICK_MS \<longrightarrow>
       (\<exists>s''. tick_steps tp ks (es @ [e']) s = Some s'' \<and>
          trace s'' = trace s @ ticks 1 (readInputs ks) \<and> accumulator s'' = 0))"
proof -
  let ?a = "fadd (accumulator s) (min e 100)"
  let ?t = "s\<lparr>accumulator := ?a\<rparr>"
  let ?f = "\<lambda>a. fsub a TICK_MS"
  from tick_step_bounded [OF assms(2), of tp ks e] obtain n where n: "n \<le> 6"
    and r: "tick_step tp ks e s = Some ((one_tick tp ks ^^ n) ?t)"
    and g: "\<forall>k<n. TICK_MS \<le> (?f ^^ k) ?a"
    and l: "(?f ^^ n) ?a < TICK_MS"
    by auto
  let ?s' = "(one_tick tp ks ^^ n) ?t"
  have tr: "trace ?s' = trace s @ ticks n (readInputs ks)"
    by (simp add: funpow_one_tick_trace)
  have acc: "accumulator ?s' = (?f ^^ n) ?a" by (simp add: funpow_one_tick_acc)
  have z: "n = 0 \<longleftrightarrow> ?a < TICK_MS"
  proof
    assume "n = 0"
    then show "?a < TICK_MS" using l by simp
  next
    assume "?a < TICK_MS"
    show "n = 0"
    proof (rule ccontr)
      assume "n \<noteq> 0"
      then have "TICK_MS \<le> (?f ^^ 0) ?a" using g by blast
      then show False using \<open>?a < TICK_MS\<close> by simp
    qed
  qed
  have k: "n = 0 \<longrightarrow> latestSnap ?s' = latestSnap s \<and> game ?s' = game s" by simp
  have e0: "e = 0 \<longrightarrow> n = 0 \<and> ?s' = s"
  proof
    assume e: "e = 0"
    then have a: "?a = accumulator s" using assms(1) by (simp add: fadd_def)
    then have "n = 0" using z assms(2) by simp
    then show "n = 0 \<and> ?s' = s" using a by simp
  qed
  have one: "?a = TICK_MS \<longrightarrow> n = 1 \<and> accumulator ?s' = 0"
  proof
    assume a: "?a = TICK_MS"
    have n0: "n \<noteq> 0" using z a by simp
    have "\<not> 1 < n"
    proof
      assume "1 < n"
      then have "TICK_MS \<le> (?f ^^ 1) ?a" using g by blast
      then have "TICK_MS \<le> 0" unfolding a by (simp add: fsub_def)
      then show False using TICK_MS_pos by simp
    qed
    then have "n = 1" using n0 by simp
    then show "n = 1 \<and> accumulator ?s' = 0" unfolding acc a by (simp add: fsub_def)
  qed
  have A: "\<exists>n s'. tick_step tp ks e s = Some s' \<and> n \<le> 6 \<and>
     s' = (one_tick tp ks ^^ n) (s\<lparr>accumulator := fadd (accumulator s) (min e 100)\<rparr>) \<and>
     trace s' = trace s @ ticks n (readInputs ks) \<and>
     (\<forall>k<n. TICK_MS \<le> ((\<lambda>a. fsub a TICK_MS) ^^ k) (fadd (accumulator s) (min e 100))) \<and>
     accumulator s' = ((\<lambda>a. fsub a TICK_MS) ^^ n) (fadd (accumulator s) (min e 100)) \<and>
     accumulator s' < TICK_MS \<and>
     (n = 0 \<longleftrightarrow> fadd (accumulator s) (min e 100) < TICK_MS) \<and>
     (n = 0 \<longrightarrow> latestSnap s' = latestSnap s \<and> game s' = game s) \<and>
     (e = 0 \<longrightarrow> n = 0 \<and> s' = s) \<and>
     (fadd (accumulator s) (min e 100) = TICK_MS \<longrightarrow> n = 1 \<and> accumulator s' = 0)"
    using r n tr g acc l z k e0 one
    by (intro exI [of _ n] exI [of _ ?s']) (simp only: simp_thms)
  have B: "\<forall>es e'.
       (\<forall>k<length es. accumulate (accumulator s) (take (Suc k) es) < TICK_MS) \<and>
       accumulate (accumulator s) (es @ [e']) = TICK_MS \<longrightarrow>
       (\<exists>s''. tick_steps tp ks (es @ [e']) s = Some s'' \<and>
          trace s'' = trace s @ ticks 1 (readInputs ks) \<and> accumulator s'' = 0)"
    using tick_steps_once [of _ s _ tp ks] by blast
  from A B show ?thesis by (rule conjI)
qed

theorem tick_schedule_witness:
  "double (accumulator frame0) = accumulator frame0 \<and> accumulator frame0 < TICK_MS \<and>
   (\<exists>s'. tick_step stub_engine Map.empty TICK_MS frame0 = Some s' \<and>
      trace s' = [ReadInputs, TickPacked 0] \<and> accumulator s' = 0 \<and> game s' = 1) \<and>
   tick_step stub_engine Map.empty 0 frame0 = Some frame0"
proof -
  have d: "double (accumulator frame0) = accumulator frame0" by (simp add: frame0_def)
  have b: "accumulator frame0 < TICK_MS" using TICK_MS_pos by (simp add: frame0_def)
  have t: "fadd (accumulator frame0) (min TICK_MS 100) = TICK_MS"
  proof -
    have "min TICK_MS 100 = TICK_MS" unfolding TICK_MS_value by simp
    then show ?thesis by (simp add: fadd_def frame0_def TICK_MS_def double_idem)
  qed
  have z: "readInputs Map.empty = 0" by (simp add: readInputs_zero_iff pressed_def)
  from tick_schedule [OF d b, of stub_engine Map.empty TICK_MS, THEN conjunct1] t obtain s' where
    "tick_step stub_engine Map.empty TICK_MS frame0 = Some s'"
    "s' = (one_tick stub_engine Map.empty ^^ 1)
       (frame0\<lparr>accumulator := fadd (accumulator frame0) (min TICK_MS 100)\<rparr>)"
    "trace s' = trace frame0 @ ticks 1 (readInputs Map.empty)" "accumulator s' = 0"
    by auto
  then have 1: "\<exists>s'. tick_step stub_engine Map.empty TICK_MS frame0 = Some s' \<and>
      trace s' = [ReadInputs, TickPacked 0] \<and> accumulator s' = 0 \<and> game s' = 1"
    by (simp add: z ticks_def frame0_def one_tick_def stub_engine_def)
  from tick_schedule [OF d b, of stub_engine Map.empty 0, THEN conjunct1]
  have 2: "tick_step stub_engine Map.empty 0 frame0 = Some frame0" by auto
  from d b 1 2 show ?thesis by (intro conjI)
qed

subsection \<open>The clamp on the elapsed time\<close>

text \<open>
  C2. A step with an elapsed time above 100 ms is the step with an elapsed time of
  exactly 100 ms: the same state results, so the same ticks run, the same accumulator is
  left, and nothing of the excess is kept.
\<close>

theorem clamp_elapsed:
  "100 < e \<Longrightarrow> tick_step tp ks e s = tick_step tp ks 100 s"
  by (simp add: tick_step_def min_def)

theorem clamp_elapsed_witness:
  "(100 :: rat) < 250 \<and>
   tick_step stub_engine Map.empty 250 frame0 = tick_step stub_engine Map.empty 100 frame0"
proof -
  have h: "(100 :: rat) < 250" by simp
  from clamp_elapsed [OF h] show ?thesis by simp
qed

subsection \<open>Input encoding\<close>

text \<open>
  C3. \<^verbatim>\<open>readInputs\<close> is a function of the pressed state of the eighteen bound keys
  alone and tells any two such states apart; the bit of player \<open>p\<close>'s action \<open>a\<close> is set
  exactly when the key bound to it is pressed; the eighteen bit positions are pairwise
  different and no other bit is ever set; one pressed key alone gives exactly its own bit;
  the value is 0 exactly when none of the keys is pressed; the positions are 0 to 8 for
  player 1 and 9 to 17 for player 2, in the order forward, backward, guard-left,
  guard-right, light, heavy, special, block, dash; player 1's light attack alone encodes
  to \<open>1 << 4\<close>, which is 16.
\<close>

theorem readInputs_layout:
  "(readInputs ks = readInputs ks' \<longleftrightarrow>
      (\<forall>p a. pressed ks (key_binding p a) = pressed ks' (key_binding p a))) \<and>
   (\<forall>p a. bit (readInputs ks) (spec_bit p a) = pressed ks (key_binding p a)) \<and>
   (\<forall>n. 18 \<le> n \<longrightarrow> \<not> bit (readInputs ks) n) \<and>
   (\<forall>p a q b. spec_bit p a = spec_bit q b \<longleftrightarrow> p = q \<and> a = b) \<and>
   (\<forall>p a. readInputs (keydown (key_binding p a) Map.empty) = push_bit (spec_bit p a) 1) \<and>
   (readInputs ks = 0 \<longleftrightarrow> (\<forall>p a. \<not> pressed ks (key_binding p a))) \<and>
   map (spec_bit P1) [Forward, Backward, GuardLeft, GuardRight, Light, Heavy, Special, Block, Dash]
     = [0, 1, 2, 3, 4, 5, 6, 7, 8] \<and>
   map (spec_bit P2) [Forward, Backward, GuardLeft, GuardRight, Light, Heavy, Special, Block, Dash]
     = [9, 10, 11, 12, 13, 14, 15, 16, 17] \<and>
   readInputs (keydown ''KeyJ'' Map.empty) = push_bit 4 1 \<and>
   push_bit 4 1 = (16 :: 32 word)"
proof -
  have 1: "readInputs ks = readInputs ks' \<longleftrightarrow>
      (\<forall>p a. pressed ks (key_binding p a) = pressed ks' (key_binding p a))"
  proof
    assume "readInputs ks = readInputs ks'"
    then show "\<forall>p a. pressed ks (key_binding p a) = pressed ks' (key_binding p a)"
      using bit_spec_bit [of ks] bit_spec_bit [of ks'] by simp
  qed (rule readInputs_cong)
  have 2: "\<forall>p a. bit (readInputs ks) (spec_bit p a) = pressed ks (key_binding p a)"
    by (simp add: bit_spec_bit)
  have 3: "\<forall>n. 18 \<le> n \<longrightarrow> \<not> bit (readInputs ks) n"
    by (simp add: readInputs_high_bits)
  have 4: "\<forall>p a q b. spec_bit p a = spec_bit q b \<longleftrightarrow> p = q \<and> a = b"
    by (simp add: spec_bit_inj)
  have 5: "\<forall>p a. readInputs (keydown (key_binding p a) Map.empty) = push_bit (spec_bit p a) 1"
    by (simp add: single_key)
  have 6: "readInputs ks = 0 \<longleftrightarrow> (\<forall>p a. \<not> pressed ks (key_binding p a))"
    by (rule readInputs_zero_iff)
  have 7: "map (spec_bit P1) [Forward, Backward, GuardLeft, GuardRight, Light, Heavy, Special, Block, Dash]
     = [0, 1, 2, 3, 4, 5, 6, 7, 8]"
    by (simp add: spec_bit_def)
  have 8: "map (spec_bit P2) [Forward, Backward, GuardLeft, GuardRight, Light, Heavy, Special, Block, Dash]
     = [9, 10, 11, 12, 13, 14, 15, 16, 17]"
    by (simp add: spec_bit_def)
  have 9: "readInputs (keydown ''KeyJ'' Map.empty) = push_bit 4 1"
    using single_key [of P1 Light] by (simp add: spec_bit_def)
  have 10: "push_bit 4 1 = (16 :: 32 word)" by simp
  from 1 2 3 4 5 6 7 8 9 10 show ?thesis by (intro conjI)
qed

theorem readInputs_layout_witness:
  "(18::nat) \<le> 20 \<and> \<not> bit (readInputs (keydown ''Space'' (keydown ''KeyJ'' Map.empty))) 20 \<and>
   readInputs (keydown ''Space'' (keydown ''KeyJ'' Map.empty)) = 272"
proof -
  let ?ks = "keydown ''Space'' (keydown ''KeyJ'' Map.empty)"
  from readInputs_layout [of ?ks Map.empty]
  have "\<forall>n. 18 \<le> n \<longrightarrow> \<not> bit (readInputs ?ks) n" by (elim conjE)
  then have "\<not> bit (readInputs ?ks) 20" by simp
  moreover have "readInputs ?ks = 272"
    unfolding readInputs_flat by (simp add: pressed_def keydown_def)
  ultimately show ?thesis by simp
qed

subsection \<open>Hit notification\<close>

text \<open>
  C4, as stated, at two inputs. First, a description that is present but empty. The
  retained description is absent, the snapshot's is the empty string: it differs from the
  retained one, yet the truthiness test of line 211 rejects it, the countdown stays 0 and
  the notification stays invisible. Second, a new description that is not empty, in a
  snapshot whose first fighter has \<open>2\<^sup>5\<^sup>3\<close> round wins: line 184 throws a
  \<^verbatim>\<open>RangeError\<close>, since no string is that long, before line 211 is reached, and again
  the countdown stays 0 and the notification stays invisible.
\<close>

theorem hit_notification_empty_counterexample:
  "last_hit_info (snap0\<lparr>last_hit_info := Some []\<rparr>) \<noteq> lastHitInfo hud0 \<and>
   map_sum id (\<lambda>h. (lastHitInfo h, hitInfoTimer h, hitInfo_opacity h))
     (updateHUD (snap0\<lparr>last_hit_info := Some []\<rparr>) hud0) = Inr (None, 0, ''0'') \<and>
   map_sum (\<lambda>(e, h). (e, lastHitInfo h, hitInfoTimer h, hitInfo_opacity h)) id
     (updateHUD (snap0\<lparr>last_hit_info := Some ''Kael hits Knight'',
                       fighters := [kael\<lparr>round_wins := 2 ^ 53\<rparr>, knight]\<rparr>) hud0)
     = Inl (RangeError, None, 0, ''0'')"
  by (simp add: updateHUD_def snap0_def hud0_def kael_def knight_def p1_labels_def
      p2_labels_def match_labels_def String_repeat_star max_string_length_def
      phase_overlay_def hit_info_def health_bars_def Let_def)

text \<open>
  C4, amended. Let the description change to a new value \<open>d\<close> that is present and not
  empty, and then repeat unchanged over any number of further calls, all of them on
  presentable snapshots (two fighters, a winner that is absent or one of them, win counts
  of at most \<open>2\<^sup>2\<^sup>9 - 24\<close>), so that every call returns. After the call with
  the change and \<open>k\<close> repeats the retained description is \<open>d\<close>, the notification shows
  \<open>d\<close>, and the countdown is 120 less the number of calls made, the call with the change
  included, or 0 once that many calls were made: it was set to 120 once, at the change,
  and every call since took exactly one off while it was above zero. The notification is
  visible (opacity 1) while the countdown is above zero and invisible (opacity 0) exactly
  from the call that brings it to zero.
\<close>

theorem hit_notification_countdown:
  assumes "d \<noteq> []" and "lastHitInfo h \<noteq> Some d"
    and "\<forall>snap \<in> set (s0 # snaps). presentable snap \<and> last_hit_info snap = Some d"
  shows "\<exists>h'. present_all (s0 # snaps) h = Inr h' \<and>
      lastHitInfo h' = Some d \<and>
      hitInfo_textContent h' = d \<and>
      hitInfoTimer h' = 120 - (1 + length snaps) \<and>
      hitInfo_opacity h' = (if length snaps < 119 then ''1'' else ''0'') \<and>
      (hitInfo_opacity h' = ''0'' \<longleftrightarrow> hitInfoTimer h' = 0)"
proof -
  from assms(3) have wf: "presentable s0" and d: "last_hit_info s0 = Some d" by simp_all
  obtain h1 where h1: "updateHUD s0 h = Inr h1"
    and l: "lastHitInfo h1 = lastHitInfo (hit_info s0 h)"
    and t: "hitInfoTimer h1 = hitInfoTimer (hit_info s0 h)"
    and c: "hitInfo_textContent h1 = hitInfo_textContent (hit_info s0 h)"
    and p: "hitInfo_opacity h1 = hitInfo_opacity (hit_info s0 h)"
    using updateHUD_hit [OF wf, of h] by blast
  note r = hit_info_change [OF assms(1) assms(2) d]
  have l1: "lastHitInfo h1 = Some d" using l r by simp
  have rest: "\<forall>snap \<in> set snaps. presentable snap \<and> last_hit_info snap = Some d"
    using assms(3) by simp
  obtain h' where h': "present_all snaps h1 = Inr h'" "lastHitInfo h' = Some d"
      "hitInfoTimer h' = hitInfoTimer h1 - length snaps"
      "hitInfo_textContent h' = hitInfo_textContent h1"
      "hitInfo_opacity h' =
        (if 0 < hitInfoTimer h1 \<and> hitInfoTimer h1 \<le> length snaps then ''0'' else hitInfo_opacity h1)"
    using present_all_repeat [OF rest l1] by auto
  show ?thesis
    using h1 h' t c p r by auto
qed

theorem hit_notification_countdown_witness:
  "''Kael hits Knight'' \<noteq> [] \<and> lastHitInfo hud0 \<noteq> Some ''Kael hits Knight'' \<and>
   presentable (snap0\<lparr>last_hit_info := Some ''Kael hits Knight''\<rparr>) \<and>
   (\<exists>h'. present_all (replicate 3 (snap0\<lparr>last_hit_info := Some ''Kael hits Knight''\<rparr>)) hud0 = Inr h' \<and>
      hitInfoTimer h' = 117 \<and> hitInfo_opacity h' = ''1'')"
proof -
  let ?s = "snap0\<lparr>last_hit_info := Some ''Kael hits Knight''\<rparr>"
  have a: "''Kael hits Knight'' \<noteq> []" by simp
  have b: "lastHitInfo hud0 \<noteq> Some ''Kael hits Knight''" by (simp add: hud0_def)
  have w: "presentable ?s"
    by (simp add: presentable_def well_formed_def snap0_def kael_def knight_def
        max_string_length_def)
  have c: "\<forall>snap \<in> set (?s # [?s, ?s]). presentable snap \<and> last_hit_info snap = Some ''Kael hits Knight''"
    using w by simp
  have e: "replicate 3 ?s = ?s # [?s, ?s]" by (simp add: numeral_3_eq_3)
  from hit_notification_countdown [OF a b c] show ?thesis
    unfolding e using b w by auto
qed

subsection \<open>Health bars\<close>

text \<open>
  C5, as stated, at a first fighter with a health fraction of 0.125 and \<open>2\<^sup>5\<^sup>3\<close> round
  wins. Line 184 throws a \<^verbatim>\<open>RangeError\<close>, since no string is that long, and the lines
  that style the bars are not reached: the bar of a fighter below 0.25 keeps the default
  background it had and does not get the alarm gradient.
\<close>

theorem health_bar_counterexample:
  "health_pct (kael\<lparr>health_pct := 1 / 8, round_wins := 2 ^ 53\<rparr>) < 0.25 \<and>
   map_sum (\<lambda>(e, h). (e, p1Health_background h)) id
     (updateHUD (snap0\<lparr>fighters := [kael\<lparr>health_pct := 1 / 8, round_wins := 2 ^ 53\<rparr>, knight]\<rparr>) hud0)
     = Inl (RangeError, [])"
  by (simp add: updateHUD_def snap0_def hud0_def kael_def p1_labels_def String_repeat_star
      max_string_length_def)

text \<open>
  C5, amended. The background chosen for a health fraction is the alarm gradient exactly
  when the fraction is below 0.25, the warning gradient exactly when it is at least 0.25
  and below 0.5, and the empty (default) background exactly when it is at least 0.5. A
  health of exactly 0.25 does not give the alarm gradient; 0.2499 does, as a decimal and
  as the binary64 value nearest to it. Whenever \<^verbatim>\<open>updateHUD\<close> returns, player 1's bar
  has the background chosen for the first fighter's health alone and player 2's bar the
  one chosen for the second fighter's. It returns on every presentable snapshot: two
  fighters, a winner that is absent or one of them, and win counts of at most
  \<open>2\<^sup>2\<^sup>9 - 24\<close>; among the snapshots of the data model it returns on no other.
\<close>

theorem health_bar_thresholds:
  "(health_background pct = ''linear-gradient(180deg, #f44, #822)'' \<longleftrightarrow> pct < 0.25) \<and>
   (health_background pct = ''linear-gradient(180deg, #fc4, #862)'' \<longleftrightarrow> 0.25 \<le> pct \<and> pct < 0.5) \<and>
   (health_background pct = [] \<longleftrightarrow> 0.5 \<le> pct) \<and>
   health_background 0.25 \<noteq> ''linear-gradient(180deg, #f44, #822)'' \<and>
   health_background 0.2499 = ''linear-gradient(180deg, #f44, #822)'' \<and>
   health_background (double 0.2499) = ''linear-gradient(180deg, #f44, #822)'' \<and>
   (\<forall>h'. updateHUD snap h = Inr h' \<longrightarrow>
      p1Health_background h' = health_background (health_pct (fighters snap ! 0)) \<and>
      p2Health_background h' = health_background (health_pct (fighters snap ! 1))) \<and>
   (presentable snap \<longrightarrow> (\<exists>h'. updateHUD snap h = Inr h')) \<and>
   (well_formed snap \<and> (\<exists>h'. updateHUD snap h = Inr h') \<longrightarrow> presentable snap)"
proof -
  have 1: "health_background pct = ''linear-gradient(180deg, #f44, #822)'' \<longleftrightarrow> pct < 0.25"
    by (simp add: health_background_def)
  have 2: "health_background pct = ''linear-gradient(180deg, #fc4, #862)'' \<longleftrightarrow>
      0.25 \<le> pct \<and> pct < 0.5"
    by (auto simp: health_background_def)
  have 3: "health_background pct = [] \<longleftrightarrow> 0.5 \<le> pct"
    by (auto simp: health_background_def)
  have 4: "health_background 0.25 \<noteq> ''linear-gradient(180deg, #f44, #822)''"
    by (simp add: health_background_def)
  have 5: "health_background 0.2499 = ''linear-gradient(180deg, #f44, #822)''"
    by (simp add: health_background_def)
  have five: "health_background (double 0.2499) = ''linear-gradient(180deg, #f44, #822)''"
    by (simp add: health_background_def literals)
  have 6: "\<forall>h'. updateHUD snap h = Inr h' \<longrightarrow>
      p1Health_background h' = health_background (health_pct (fighters snap ! 0)) \<and>
      p2Health_background h' = health_background (health_pct (fighters snap ! 1))"
  proof (intro allI impI)
    fix h'
    assume "updateHUD snap h = Inr h'"
    from updateHUD_Inr [OF this]
    show "p1Health_background h' = health_background (health_pct (fighters snap ! 0)) \<and>
      p2Health_background h' = health_background (health_pct (fighters snap ! 1))"
      by (auto simp: health_bars_def)
  qed
  have 7: "presentable snap \<longrightarrow> (\<exists>h'. updateHUD snap h = Inr h')"
    using updateHUD_ok [of snap h] by blast
  have 8: "well_formed snap \<and> (\<exists>h'. updateHUD snap h = Inr h') \<longrightarrow> presentable snap"
    using updateHUD_returns_iff [of snap h] by blast
  from 1 2 3 4 5 five 6 7 8 show ?thesis by (intro conjI)
qed

theorem health_bar_thresholds_witness:
  "presentable snap0 \<and> well_formed snap0 \<and>
   (\<exists>h'. updateHUD snap0 hud0 = Inr h' \<and> p1Health_background h' = [] \<and>
      p2Health_background h' = ''linear-gradient(180deg, #f44, #822)'')"
proof -
  have wf: "well_formed snap0" by (simp add: well_formed_def snap0_def)
  have p: "presentable snap0"
    by (simp add: presentable_def wf) (simp add: snap0_def kael_def knight_def max_string_length_def)
  note t = health_bar_thresholds [of 1 snap0 hud0]
  from t have a: "\<forall>h'. updateHUD snap0 hud0 = Inr h' \<longrightarrow>
      p1Health_background h' = health_background (health_pct (fighters snap0 ! 0)) \<and>
      p2Health_background h' = health_background (health_pct (fighters snap0 ! 1))"
    by (elim conjE)
  from t have b: "presentable snap0 \<longrightarrow> (\<exists>h'. updateHUD snap0 hud0 = Inr h')"
    by (elim conjE)
  from b p obtain h' where h': "updateHUD snap0 hud0 = Inr h'" by blast
  with a have "p1Health_background h' = health_background (health_pct (fighters snap0 ! 0)) \<and>
      p2Health_background h' = health_background (health_pct (fighters snap0 ! 1))"
    by blast
  then have "p1Health_background h' = [] \<and>
      p2Health_background h' = ''linear-gradient(180deg, #f44, #822)''"
    by (simp add: snap0_def kael_def knight_def health_background_def literals)
  with h' p wf show ?thesis by blast
qed

subsection \<open>Phase overlay\<close>

text \<open>
  C6, as stated, at a snapshot in phase RoundOver whose first fighter has \<open>2\<^sup>5\<^sup>3\<close> round
  wins. Line 184 throws a \<^verbatim>\<open>RangeError\<close>, since no string is that long, before the
  overlay is written: it stays hidden, with the empty text it had.
\<close>

theorem phase_overlay_counterexample:
  "phase (snap0\<lparr>phase := ''RoundOver'', fighters := [kael\<lparr>round_wins := 2 ^ 53\<rparr>, knight]\<rparr>)
     = ''RoundOver'' \<and>
   map_sum (\<lambda>(e, h). (e, phase_display h, phase_textContent h)) id
     (updateHUD (snap0\<lparr>phase := ''RoundOver'', fighters := [kael\<lparr>round_wins := 2 ^ 53\<rparr>, knight]\<rparr>)
        hud0)
     = Inl (RangeError, ''none'', [])"
  by (simp add: updateHUD_def snap0_def hud0_def kael_def p1_labels_def String_repeat_star
      max_string_length_def)

text \<open>
  C6, amended. On a presentable snapshot (two fighters, a winner that is absent or one of
  them, win counts of at most \<open>2\<^sup>2\<^sup>9 - 24\<close>) \<^verbatim>\<open>updateHUD\<close> returns without throwing,
  and the overlay depends on the phase alone: Countdown shows the snapshot's countdown
  string, RoundOver shows ROUND OVER, MatchOver shows the winner's fighter id followed by
  WINS!, or Draw WINS! when there is no winner, and Fighting hides the overlay and leaves
  its text as it was. The overlay is visible for exactly the first three phases and hidden
  for every other tag, so the outcomes exclude each other.
\<close>

theorem phase_overlay_by_phase:
  assumes "presentable snap"
  shows "\<exists>h'. updateHUD snap h = Inr h' \<and>
     (phase snap = ''Countdown'' \<longrightarrow>
        phase_display h' = ''block'' \<and>
        phase_textContent h' = (case countdown_display snap of None \<Rightarrow> [] | Some s \<Rightarrow> s)) \<and>
     (phase snap = ''RoundOver'' \<longrightarrow>
        phase_display h' = ''block'' \<and> phase_textContent h' = ''ROUND OVER'') \<and>
     (phase snap = ''MatchOver'' \<longrightarrow>
        phase_display h' = ''block'' \<and>
        phase_textContent h' =
          (case winner snap of
             None \<Rightarrow> ''Draw WINS!''
           | Some i \<Rightarrow> fighter_id (fighters snap ! i) @ '' WINS!'')) \<and>
     (phase snap = ''Fighting'' \<longrightarrow>
        phase_display h' = ''none'' \<and> phase_textContent h' = phase_textContent h) \<and>
     (phase_display h' = ''block'' \<longleftrightarrow>
        phase snap = ''Countdown'' \<or> phase snap = ''RoundOver'' \<or> phase snap = ''MatchOver'') \<and>
     (phase_display h' = ''none'' \<longleftrightarrow>
        \<not> (phase snap = ''Countdown'' \<or> phase snap = ''RoundOver'' \<or> phase snap = ''MatchOver''))"
proof -
  obtain h0 h1 where h1: "phase_overlay snap h0 = Inr h1"
    and h0: "phase_textContent h0 = phase_textContent h"
    and u: "updateHUD snap h =
      Inr (health_bars (fighters snap ! 0) (fighters snap ! 1) (hit_info snap h1))"
    using updateHUD_ok [OF assms, of h] by blast
  have w: "winner snap = Some i \<Longrightarrow> i < length (fighters snap)" for i
    using assms by (simp add: presentable_def well_formed_def)
  have d: "phase_display h1 =
      (if phase snap = ''Countdown'' \<or> phase snap = ''RoundOver'' \<or> phase snap = ''MatchOver''
       then ''block'' else ''none'')"
    using h1 w by (auto simp: phase_overlay_def split: option.splits if_splits)
  have t: "phase_textContent h1 =
      (if phase snap = ''Countdown'' then (case countdown_display snap of None \<Rightarrow> [] | Some s \<Rightarrow> s)
       else if phase snap = ''RoundOver'' then ''ROUND OVER''
       else if phase snap = ''MatchOver'' then
         (case winner snap of None \<Rightarrow> ''Draw WINS!''
          | Some i \<Rightarrow> fighter_id (fighters snap ! i) @ '' WINS!'')
       else phase_textContent h)"
    using h1 w h0 by (auto simp: phase_overlay_def split: option.splits if_splits)
  show ?thesis
    unfolding u by (rule exI [of _ "health_bars (fighters snap ! 0) (fighters snap ! 1)
      (hit_info snap h1)"]) (simp add: d t)
qed

theorem phase_overlay_by_phase_witness:
  "presentable (snap0\<lparr>phase := ''MatchOver'', winner := Some 0\<rparr>) \<and>
   (\<exists>h'. updateHUD (snap0\<lparr>phase := ''MatchOver'', winner := Some 0\<rparr>) hud0 = Inr h' \<and>
      phase_display h' = ''block'' \<and> phase_textContent h' = ''Kael WINS!'')"
proof -
  let ?s = "snap0\<lparr>phase := ''MatchOver'', winner := Some 0\<rparr>"
  have wf: "presentable ?s"
    by (simp add: presentable_def well_formed_def snap0_def kael_def knight_def
        max_string_length_def)
  from phase_overlay_by_phase [OF wf, of hud0] obtain h' where
    "updateHUD ?s hud0 = Inr h'" "phase_display h' = ''block''"
    "phase_textContent h' = fighter_id (fighters ?s ! 0) @ '' WINS!''"
    by auto
  then show ?thesis using wf by (auto simp: snap0_def kael_def)
qed

subsection \<open>Body scale\<close>

text \<open>
  C7, as stated, at an attacking fighter whose attack is in its active phase: the scale
  is 1.1 on x and z but 1.05 on y, not one factor on all three axes.
\<close>

theorem body_scale_active_counterexample:
  "body_scale (updateFighterMesh (mesh0 P1Mesh)
      (kael\<lparr>state := ''Attacking'', attack := Some \<lparr>attack_phase = ''Active''\<rparr>\<rparr>))
     = (double 1.1, double 1.05, double 1.1) \<and> double 1.1 \<noteq> double 1.05"
  by (simp add: updateFighterMesh_def scale_for_def attack_active_def kael_def literals)

text \<open>
  C7, amended. Dashing gives (1.3, 0.8, 1): stretched forward, compressed vertically.
  Attacking with an attack in phase Active gives (1.1, 1.05, 1.1): a slight expansion on
  every axis, by the same factor on x and z and a smaller one on y. HitStun gives
  (0.9, 1.1, 0.9): compressed horizontally, stretched vertically. Knockdown gives
  (1.2, 0.5, 1): strongly compressed vertically. Every other state, Attacking without an
  attack in phase Active included, gives (1, 1, 1).
\<close>

theorem body_scale_by_state:
  "(state f = ''Dashing'' \<longrightarrow>
      body_scale (updateFighterMesh m f) = (double 1.3, double 0.8, 1)) \<and>
   (state f = ''Attacking'' \<and> (\<exists>i. attack f = Some i \<and> attack_phase i = ''Active'') \<longrightarrow>
      body_scale (updateFighterMesh m f) = (double 1.1, double 1.05, double 1.1)) \<and>
   (state f = ''HitStun'' \<longrightarrow>
      body_scale (updateFighterMesh m f) = (double 0.9, double 1.1, double 0.9)) \<and>
   (state f = ''Knockdown'' \<longrightarrow>
      body_scale (updateFighterMesh m f) = (double 1.2, 0.5, 1)) \<and>
   (state f \<noteq> ''Dashing'' \<and> state f \<noteq> ''HitStun'' \<and> state f \<noteq> ''Knockdown'' \<and>
    \<not> (state f = ''Attacking'' \<and> (\<exists>i. attack f = Some i \<and> attack_phase i = ''Active'')) \<longrightarrow>
      body_scale (updateFighterMesh m f) = (1, 1, 1)) \<and>
   (1 < double 1.3 \<and> double 0.8 < 1) \<and>
   (1 < double 1.05 \<and> double 1.05 < double 1.1) \<and>
   (double 0.9 < 1 \<and> 1 < double 1.1) \<and>
   (0.5 :: rat) < double 0.8"
proof -
  have a: "attack_active (attack f) \<longleftrightarrow> (\<exists>i. attack f = Some i \<and> attack_phase i = ''Active'')"
    by (cases "attack f") (simp_all add: attack_active_def)
  have s: "(state f = ''Dashing'' \<longrightarrow>
      body_scale (updateFighterMesh m f) = (double 1.3, double 0.8, 1)) \<and>
   (state f = ''Attacking'' \<and> attack_active (attack f) \<longrightarrow>
      body_scale (updateFighterMesh m f) = (double 1.1, double 1.05, double 1.1)) \<and>
   (state f = ''HitStun'' \<longrightarrow>
      body_scale (updateFighterMesh m f) = (double 0.9, double 1.1, double 0.9)) \<and>
   (state f = ''Knockdown'' \<longrightarrow>
      body_scale (updateFighterMesh m f) = (double 1.2, 0.5, 1)) \<and>
   (state f \<noteq> ''Dashing'' \<and> state f \<noteq> ''HitStun'' \<and> state f \<noteq> ''Knockdown'' \<and>
    \<not> (state f = ''Attacking'' \<and> attack_active (attack f)) \<longrightarrow>
      body_scale (updateFighterMesh m f) = (1, 1, 1))"
    by (simp add: updateFighterMesh_def scale_for_def)
  have q: "(1 < double 1.3 \<and> double 0.8 < 1) \<and>
   (1 < double 1.05 \<and> double 1.05 < double 1.1) \<and>
   (double 0.9 < 1 \<and> 1 < double 1.1) \<and>
   (0.5 :: rat) < double 0.8"
    by (simp add: literals)
  from s q show ?thesis unfolding a by (simp only: simp_thms)
qed

theorem body_scale_by_state_witness:
  "state (kael\<lparr>state := ''Attacking'', attack := Some \<lparr>attack_phase = ''Startup''\<rparr>\<rparr>) \<noteq> ''Dashing'' \<and>
   body_scale (updateFighterMesh (mesh0 P1Mesh)
     (kael\<lparr>state := ''Attacking'', attack := Some \<lparr>attack_phase = ''Startup''\<rparr>\<rparr>)) = (1, 1, 1) \<and>
   state (kael\<lparr>state := ''Knockdown''\<rparr>) = ''Knockdown'' \<and>
   body_scale (updateFighterMesh (mesh0 P1Mesh) (kael\<lparr>state := ''Knockdown''\<rparr>)) =
     (5404319552844595 / 4503599627370496, 1 / 2, 1)"
proof -
  let ?f = "kael\<lparr>state := ''Attacking'', attack := Some \<lparr>attack_phase = ''Startup''\<rparr>\<rparr>"
  let ?g = "kael\<lparr>state := ''Knockdown''\<rparr>"
  have 1: "state ?f \<noteq> ''Dashing'' \<and> state ?f \<noteq> ''HitStun'' \<and> state ?f \<noteq> ''Knockdown'' \<and>
    \<not> (state ?f = ''Attacking'' \<and> (\<exists>i. attack ?f = Some i \<and> attack_phase i = ''Active''))"
    by simp
  have 2: "state ?g = ''Knockdown''" by simp
  from body_scale_by_state [of ?f "mesh0 P1Mesh"] 1
  have "body_scale (updateFighterMesh (mesh0 P1Mesh) ?f) = (1, 1, 1)" by blast
  moreover from body_scale_by_state [of ?g "mesh0 P1Mesh"] 2
  have "body_scale (updateFighterMesh (mesh0 P1Mesh) ?g) = (double 1.2, 0.5, 1)" by blast
  ultimately show ?thesis by (simp add: literals)
qed

subsection \<open>Body tint\<close>

text \<open>
  C8 fails on the code. For a fighter on player 1's mesh, each of the six tags Attacking,
  Blocking, Dashing, HitStun, Airborne and Knockdown gets the tint \<^verbatim>\<open>STATE_COLORS\<close>
  holds under that tag, and Idle and Moving get the base colour. The tag
  \<^verbatim>\<open>GettingUp\<close> gets the base colour as well, blue on player 1's mesh and red on
  player 2's: the table holds the muted tint 0x886644 under the key \<^verbatim>\<open>Getting Up\<close>,
  spelled with a space unlike the eight other keys and unlike the tags that lines 256 to
  262 compare with, and holds nothing under \<^verbatim>\<open>GettingUp\<close>.
\<close>

theorem getting_up_tint_missing:
  "map (\<lambda>st. bodyMat_color (updateFighterMesh (mesh0 P1Mesh) (kael\<lparr>state := st\<rparr>)))
     [''Attacking'', ''Blocking'', ''Dashing'', ''HitStun'', ''Airborne'', ''Knockdown'',
      ''GettingUp'', ''Idle'', ''Moving'']
     = [Num 0xffaa00, Num 0x00aaff, Num 0x88ffaa, Num 0xff0000, Num 0xffff44, Num 0x884400,
        Num 0x4488ff, Num 0x4488ff, Num 0x4488ff] \<and>
   bodyMat_color (updateFighterMesh (mesh0 P2Mesh) (knight\<lparr>state := ''GettingUp''\<rparr>)) = Num 0xff4444 \<and>
   map_of STATE_COLORS_own ''GettingUp'' = None \<and>
   map_of STATE_COLORS_own ''Getting Up'' = Some (Num 0x886644)"
  by (simp add: updateFighterMesh_def body_color_def STATE_COLORS_def STATE_COLORS_own_def
      Object_prototype_def mesh0_def kael_def knight_def)

subsection \<open>Unknown tags\<close>

text \<open>
  C9, as stated, at two inputs. First, a fighter whose state tag is
  \<^verbatim>\<open>constructor\<close>. The tag is none of the known states, but reading
  \<^verbatim>\<open>STATE_COLORS["constructor"]\<close> finds the member every object inherits, which is not
  \<^verbatim>\<open>null\<close>; it is handed to \<^verbatim>\<open>setHex\<close> in place of the base colour. Second, a
  snapshot with the unknown phase tag \<^verbatim>\<open>Paused\<close> whose first fighter has \<open>2\<^sup>5\<^sup>3\<close>
  round wins: \<^verbatim>\<open>updateHUD\<close> throws a \<^verbatim>\<open>RangeError\<close> at line 184, since no string is
  that long.
\<close>

theorem unknown_state_counterexample:
  "map_of STATE_COLORS_own ''constructor'' = None \<and>
   bodyMat_color (updateFighterMesh (mesh0 P1Mesh) (kael\<lparr>state := ''constructor''\<rparr>)) = Inherited \<and>
   Inherited \<noteq> Num 0x4488ff \<and>
   map_sum fst id
     (updateHUD (snap0\<lparr>phase := ''Paused'', fighters := [kael\<lparr>round_wins := 2 ^ 53\<rparr>, knight]\<rparr>)
        hud0) = Inl RangeError"
  by (simp add: updateFighterMesh_def body_color_def STATE_COLORS_def STATE_COLORS_own_def
      Object_prototype_def mesh0_def kael_def updateHUD_def snap0_def p1_labels_def
      String_repeat_star max_string_length_def)

text \<open>
  C9, amended. A state tag that is neither a key of \<^verbatim>\<open>STATE_COLORS\<close> nor the name of a
  member inherited from \<^verbatim>\<open>Object.prototype\<close> gets the base colour of the mesh and the
  unit scale; \<^verbatim>\<open>updateFighterMesh\<close> has no failing path. With a phase tag other than
  Countdown, RoundOver and MatchOver, \<^verbatim>\<open>updateHUD\<close> returns without throwing exactly
  when the snapshot has at least two fighters and the win counts of the first two are at
  most \<open>2\<^sup>2\<^sup>9 - 24\<close>, and whenever it returns the overlay is hidden.
\<close>

theorem unknown_tags_fall_back:
  "(map_of STATE_COLORS_own (state f) = None \<and> state f \<notin> set Object_prototype \<longrightarrow>
      bodyMat_color (updateFighterMesh m f) =
        Num (if mesh_ref m = P1Mesh then 0x4488ff else 0xff4444) \<and>
      body_scale (updateFighterMesh m f) = (1, 1, 1)) \<and>
   (phase snap \<noteq> ''Countdown'' \<and> phase snap \<noteq> ''RoundOver'' \<and> phase snap \<noteq> ''MatchOver'' \<longrightarrow>
      ((\<exists>h'. updateHUD snap h = Inr h') \<longleftrightarrow>
         2 \<le> length (fighters snap) \<and>
         round_wins (fighters snap ! 0) \<le> max_string_length \<and>
         round_wins (fighters snap ! 1) \<le> max_string_length) \<and>
      (\<forall>h'. updateHUD snap h = Inr h' \<longrightarrow> phase_display h' = ''none''))"
proof -
  have 1: "bodyMat_color (updateFighterMesh m f) =
        Num (if mesh_ref m = P1Mesh then 0x4488ff else 0xff4444) \<and>
      body_scale (updateFighterMesh m f) = (1, 1, 1)"
    if n: "map_of STATE_COLORS_own (state f) = None" and p: "state f \<notin> set Object_prototype"
  proof -
    have "state f \<notin> fst ` set STATE_COLORS_own" using n by (simp add: map_of_eq_None_iff)
    then have s: "state f \<noteq> ''Dashing''" "state f \<noteq> ''Attacking''" "state f \<noteq> ''HitStun''"
      "state f \<noteq> ''Knockdown''"
      by (auto simp: STATE_COLORS_own_def)
    show ?thesis
      using n p s by (simp add: updateFighterMesh_def body_color_def STATE_COLORS_def scale_for_def)
  qed
  have 2: "((\<exists>h'. updateHUD snap h = Inr h') \<longleftrightarrow>
         2 \<le> length (fighters snap) \<and>
         round_wins (fighters snap ! 0) \<le> max_string_length \<and>
         round_wins (fighters snap ! 1) \<le> max_string_length) \<and>
      (\<forall>h'. updateHUD snap h = Inr h' \<longrightarrow> phase_display h' = ''none'')"
    if c: "phase snap \<noteq> ''Countdown''" "phase snap \<noteq> ''RoundOver''" "phase snap \<noteq> ''MatchOver''"
  proof -
    have p: "phase_overlay snap k = Inr (k\<lparr>phase_display := ''none''\<rparr>)" for k
      using c by (simp add: phase_overlay_def)
    have a: "2 \<le> length (fighters snap) \<and>
         round_wins (fighters snap ! 0) \<le> max_string_length \<and>
         round_wins (fighters snap ! 1) \<le> max_string_length \<and> phase_display h' = ''none''"
      if r: "updateHUD snap h = Inr h'" for h'
    proof -
      from r obtain f1 rest1 where f1: "fighters snap = f1 # rest1"
        by (cases "fighters snap") (simp_all add: updateHUD_def)
      from r f1 obtain ha where ha: "p1_labels f1 h = Inr ha"
        by (cases "p1_labels f1 h") (simp_all add: updateHUD_def)
      from r f1 ha obtain f2 rest where f2: "rest1 = f2 # rest"
        by (cases rest1) (simp_all add: updateHUD_def)
      from r f1 ha f2 obtain hb where hb: "p2_labels f2 ha = Inr hb"
        by (cases "p2_labels f2 ha") (simp_all add: updateHUD_def)
      from r have "h' = health_bars f1 f2 (hit_info snap (match_labels snap hb\<lparr>phase_display := ''none''\<rparr>))"
        by (simp add: updateHUD_def f1 ha f2 hb p)
      then show ?thesis
        using f1 f2 p1_labels_Inr [OF ha] p2_labels_Inr [OF hb] by simp
    qed
    have b: "\<exists>h'. updateHUD snap h = Inr h'"
      if l: "2 \<le> length (fighters snap)"
        and w: "round_wins (fighters snap ! 0) \<le> max_string_length"
          "round_wins (fighters snap ! 1) \<le> max_string_length"
    proof -
      obtain f1 f2 fs where fs: "fighters snap = f1 # f2 # fs"
        using l by (cases "fighters snap"; cases "tl (fighters snap)") auto
      from w have w': "round_wins f1 \<le> max_string_length" "round_wins f2 \<le> max_string_length"
        by (simp_all add: fs)
      obtain ha where ha: "p1_labels f1 h = Inr ha" using p1_labels_ok [OF w'(1)] by blast
      obtain hb where hb: "p2_labels f2 ha = Inr hb" using p2_labels_ok [OF w'(2)] by blast
      show ?thesis by (simp add: updateHUD_def fs ha hb p)
    qed
    from a b show ?thesis by blast
  qed
  from 1 2 show ?thesis by blast
qed

theorem unknown_tags_fall_back_witness:
  "map_of STATE_COLORS_own ''Taunting'' = None \<and> ''Taunting'' \<notin> set Object_prototype \<and>
   bodyMat_color (updateFighterMesh (mesh0 P2Mesh) (kael\<lparr>state := ''Taunting''\<rparr>)) = Num 0xff4444 \<and>
   body_scale (updateFighterMesh (mesh0 P2Mesh) (kael\<lparr>state := ''Taunting''\<rparr>)) = (1, 1, 1) \<and>
   phase (snap0\<lparr>phase := ''Paused''\<rparr>) \<noteq> ''MatchOver'' \<and>
   2 \<le> length (fighters (snap0\<lparr>phase := ''Paused''\<rparr>)) \<and>
   (\<exists>h'. updateHUD (snap0\<lparr>phase := ''Paused''\<rparr>) (hud0\<lparr>phase_display := ''block''\<rparr>) = Inr h' \<and>
      phase_display h' = ''none'')"
proof -
  let ?f = "kael\<lparr>state := ''Taunting''\<rparr>"
  let ?s = "snap0\<lparr>phase := ''Paused''\<rparr>"
  have 1: "map_of STATE_COLORS_own (state ?f) = None \<and> state ?f \<notin> set Object_prototype"
    by (simp add: STATE_COLORS_own_def Object_prototype_def)
  have 2: "phase ?s \<noteq> ''Countdown'' \<and> phase ?s \<noteq> ''RoundOver'' \<and> phase ?s \<noteq> ''MatchOver''"
    by simp
  have 3: "2 \<le> length (fighters ?s) \<and>
      round_wins (fighters ?s ! 0) \<le> max_string_length \<and>
      round_wins (fighters ?s ! 1) \<le> max_string_length"
    by (simp add: snap0_def kael_def knight_def max_string_length_def)
  note t = unknown_tags_fall_back [of ?f "mesh0 P2Mesh" ?s "hud0\<lparr>phase_display := ''block''\<rparr>"]
  from t 1
  have a: "bodyMat_color (updateFighterMesh (mesh0 P2Mesh) ?f) =
        Num (if mesh_ref (mesh0 P2Mesh) = P1Mesh then 0x4488ff else 0xff4444) \<and>
      body_scale (updateFighterMesh (mesh0 P2Mesh) ?f) = (1, 1, 1)"
    by blast
  from t 2 3
  have "\<exists>h'. updateHUD ?s (hud0\<lparr>phase_display := ''block''\<rparr>) = Inr h'"
    by blast
  then obtain h' where h': "updateHUD ?s (hud0\<lparr>phase_display := ''block''\<rparr>) = Inr h'"
    by blast
  with t 2 have "phase_display h' = ''none''" by blast
  with h' have b: "\<exists>h'. updateHUD ?s (hud0\<lparr>phase_display := ''block''\<rparr>) = Inr h' \<and>
      phase_display h' = ''none''"
    by blast
  from a b 1 2 3 show ?thesis by (simp add: mesh0_def)
qed

subsection \<open>Bounds on the accumulator\<close>

text \<open>
  C10, as stated, at a first frame whose timestamp lies before the time the page read at
  load: the accumulator starts at 0, the elapsed time is -10 ms, the clamp bounds it from
  above only, no tick runs, and the frame leaves the accumulator at -10.
\<close>

theorem negative_accumulator_counterexample:
  "accumulator (frame0\<lparr>lastTime := 1000\<rparr>) = 0 \<and>
   map_option accumulator (run_frames stub_engine [(Map.empty, 990)] (frame0\<lparr>lastTime := 1000\<rparr>))
     = Some (- 10)"
proof -
  have "double 10 = 10" by code_simp
  then have d: "double (- 10) = - 10" using double_minus [of 10] by simp
  let ?t = "frame0\<lparr>lastTime := 990, accumulator := - 10\<rparr>"
  have "tick_loop stub_engine Map.empty ?t = Some ?t"
    by (subst tick_loop.simps) (simp add: TICK_MS_value)
  then have "tick_step stub_engine Map.empty (- 10) (frame0\<lparr>lastTime := 990\<rparr>) = Some ?t"
    by (simp add: tick_step_def fadd_def d frame0_def)
  then have "loop stub_engine Map.empty 990 (frame0\<lparr>lastTime := 1000\<rparr>) = Some (render ?t)"
    by (simp add: loop_def fsub_def d)
  then have "run_frames stub_engine [(Map.empty, 990)] (frame0\<lparr>lastTime := 1000\<rparr>)
      = Some (fst (render ?t))"
    by (simp add: split_beta)
  then show ?thesis by (simp add: frame0_def)
qed

text \<open>
  C10, amended. Start with an accumulator of 0 and run any number of frames, with any
  timestamps. Every one of them returns, and afterwards the accumulator is a binary64
  value below the tick period, and the time kept is the last timestamp; the accumulator
  is also at least 0 when no timestamp was earlier than the one before it, the first no
  earlier than the time read at load. From the state
  reached, any further frame returns, runs at most six ticks, each an input sample
  followed by an engine call, and leaves the accumulator below the tick period again,
  however far its timestamp is from the last one, and at least 0 if it was at least 0 and
  the timestamp is not earlier than the last one.
\<close>

theorem accumulator_bounds:
  assumes "accumulator s0 = 0"
  shows "\<exists>s. run_frames tp inputs s0 = Some s \<and>
      accumulator s < TICK_MS \<and>
      double (accumulator s) = accumulator s \<and>
      lastTime s = last (lastTime s0 # map snd inputs) \<and>
      (sorted (lastTime s0 # map snd inputs) \<longrightarrow> 0 \<le> accumulator s) \<and>
      (\<forall>ks now. \<exists>s1 err n. loop tp ks now s = Some (s1, err) \<and> n \<le> 6 \<and>
            trace s1 = trace s @ ticks n (readInputs ks) \<and>
            accumulator s1 < TICK_MS \<and>
            (0 \<le> accumulator s \<and> lastTime s \<le> now \<longrightarrow> 0 \<le> accumulator s1))"
proof -
  have "accumulator s0 < TICK_MS" "double (accumulator s0) = accumulator s0"
    using assms TICK_MS_pos by simp_all
  from run_frames_invariant [OF this, of tp inputs] obtain s where
    s: "run_frames tp inputs s0 = Some s" "accumulator s < TICK_MS"
      "double (accumulator s) = accumulator s"
      "lastTime s = last (lastTime s0 # map snd inputs)"
      "sorted (lastTime s0 # map snd inputs) \<longrightarrow> 0 \<le> accumulator s"
    using assms by auto
  have "\<exists>s1 err n. loop tp ks now s = Some (s1, err) \<and> n \<le> 6 \<and>
            trace s1 = trace s @ ticks n (readInputs ks) \<and>
            accumulator s1 < TICK_MS \<and>
            (0 \<le> accumulator s \<and> lastTime s \<le> now \<longrightarrow> 0 \<le> accumulator s1)"
    for ks now
    using loop_step [OF s(2), of tp ks now] by blast
  with s show ?thesis by blast
qed

theorem accumulator_bounds_witness:
  "accumulator frame0 = 0 \<and>
   sorted (lastTime frame0 # map snd [(Map.empty, 20), (keydown ''KeyJ'' Map.empty, 250)]) \<and>
   (\<exists>s. run_frames stub_engine [(Map.empty, 20), (keydown ''KeyJ'' Map.empty, 250)] frame0 = Some s \<and>
      0 \<le> accumulator s \<and> accumulator s < TICK_MS \<and> lastTime s \<le> 300 \<and>
      (\<exists>s1 err n. loop stub_engine Map.empty 300 s = Some (s1, err) \<and> n \<le> (6 :: nat) \<and>
         0 \<le> accumulator s1 \<and> accumulator s1 < TICK_MS))"
proof -
  let ?inputs = "[(Map.empty, 20), (keydown ''KeyJ'' Map.empty, 250)]"
  have a: "accumulator frame0 = 0" by (simp add: frame0_def)
  have b: "sorted (lastTime frame0 # map snd ?inputs)" by (simp add: frame0_def)
  from accumulator_bounds [OF a, of stub_engine ?inputs] obtain s where
    s: "run_frames stub_engine ?inputs frame0 = Some s" "accumulator s < TICK_MS"
      "lastTime s = last (lastTime frame0 # map snd ?inputs)"
      "sorted (lastTime frame0 # map snd ?inputs) \<longrightarrow> 0 \<le> accumulator s"
    and f: "\<forall>ks now. \<exists>s1 err n. loop stub_engine ks now s = Some (s1, err) \<and> n \<le> 6 \<and>
            trace s1 = trace s @ ticks n (readInputs ks) \<and>
            accumulator s1 < TICK_MS \<and>
            (0 \<le> accumulator s \<and> lastTime s \<le> now \<longrightarrow> 0 \<le> accumulator s1)"
    by blast
  have n: "0 \<le> accumulator s" using s(4) b by blast
  have l: "lastTime s \<le> 300" using s(3) by simp
  from f [rule_format, of Map.empty 300] obtain s1 err and k :: nat where
    k: "loop stub_engine Map.empty 300 s = Some (s1, err)" "k \<le> 6" "accumulator s1 < TICK_MS"
    "0 \<le> accumulator s \<and> lastTime s \<le> 300 \<longrightarrow> 0 \<le> accumulator s1"
    by blast
  from k(4) n l have "0 \<le> accumulator s1" by simp
  with k have c: "\<exists>s1 err n. loop stub_engine Map.empty 300 s = Some (s1, err) \<and> n \<le> (6 :: nat) \<and>
         0 \<le> accumulator s1 \<and> accumulator s1 < TICK_MS"
    by (intro exI [of _ s1] exI [of _ err] exI [of _ k]) simp
  from s(1,2) n l c have "\<exists>s. run_frames stub_engine ?inputs frame0 = Some s \<and>
      0 \<le> accumulator s \<and> accumulator s < TICK_MS \<and> lastTime s \<le> 300 \<and>
      (\<exists>s1 err n. loop stub_engine Map.empty 300 s = Some (s1, err) \<and> n \<le> (6 :: nat) \<and>
         0 \<le> accumulator s1 \<and> accumulator s1 < TICK_MS)"
    by (intro exI [of _ s]) simp
  with a b show ?thesis by (intro conjI)
qed

end
